theory Spec2Isabelle
  imports Main "HOL-Library.Word"
begin

unbundle bit_operations_syntax

section \<open>Data model of fanotify-cmdline.c\<close>

text \<open>
  The program is one C file. Its two globals (\<open>event_mask\<close>, \<open>monitors\<close>) are
  written during start-up only and are passed explicitly here. Every system call and
  every line of output is recorded as an \<open>action\<close>, in program order; the answers of
  the operating system are inputs (the record \<open>os\<close> and the list of poll rounds).
  C strings are \<open>string\<close>s without the terminating NUL. The time stamp of the
  report lines is left out of the model.
\<close>

type_synonym u64 = "64 word"
type_synonym u32 = "32 word"
type_synonym byte = "8 word"

text \<open>
  Modelled from the spec: the seven event categories are macros of
  \<^verbatim>\<open>sys/fanotify.h\<close>, which is not part of the repository. The spec only says
  that they are independent bit flags; the values below are those of the Linux header.
\<close>

definition FAN_ACCESS :: u64 where "FAN_ACCESS = 0x00000001"
definition FAN_MODIFY :: u64 where "FAN_MODIFY = 0x00000002"
definition FAN_CLOSE_WRITE :: u64 where "FAN_CLOSE_WRITE = 0x00000008"
definition FAN_CLOSE_NOWRITE :: u64 where "FAN_CLOSE_NOWRITE = 0x00000010"
definition FAN_OPEN :: u64 where "FAN_OPEN = 0x00000020"
definition FAN_EVENT_ON_CHILD :: u64 where "FAN_EVENT_ON_CHILD = 0x08000000"
definition FAN_ONDIR :: u64 where "FAN_ONDIR = 0x40000000"

text \<open>Lines 46-53: the initial value of the global \<open>event_mask\<close>.\<close>

definition initial_event_mask :: u64 where
  "initial_event_mask =
     (FAN_ACCESS OR FAN_MODIFY OR FAN_CLOSE_WRITE OR FAN_CLOSE_NOWRITE OR
      FAN_OPEN OR FAN_ONDIR OR FAN_EVENT_ON_CHILD)"

definition FANOTIFY_BUFFER_SIZE :: nat where "FANOTIFY_BUFFER_SIZE = 8192"

text \<open>Constants of the C library on Linux that the program uses by name.\<close>

definition PATH_MAX :: nat where "PATH_MAX = 4096"
definition EXIT_SUCCESS :: int where "EXIT_SUCCESS = 0"
definition EXIT_FAILURE :: int where "EXIT_FAILURE = 1"
definition SIGINT :: u32 where "SIGINT = 2"
definition SIGTERM :: u32 where "SIGTERM = 15"

text \<open>\<open>sizeof(struct signalfd_siginfo)\<close>.\<close>

definition SIGINFO_SIZE :: int where "SIGINFO_SIZE = 128"

text \<open>\<open>buffer_size - 1\<close> on \<open>size_t\<close> (64 bits): zero wraps around.\<close>

definition size_pred :: "nat \<Rightarrow> nat" where
  "size_pred n = (if n = 0 then 2 ^ 64 - 1 else n - 1)"

subsection \<open>Output and system calls\<close>

datatype message =
    Err_poll
  | Err_read_signal
  | Err_unexpected_signal
  | Err_block_signals
  | Err_signalfd
  | Err_init_signals
  | Err_fanotify_init
  | Err_add_monitor string
  | Err_init_fanotify

datatype action =
    Usage
  | Stderr message
  | Started_monitoring string
  | Exiting
  | Report_event int string
  | Report_mask int "string list"
  | Report_cmdline int string
  | Sys_sigprocmask
  | Sys_signalfd
  | Sys_fanotify_init
  | Sys_mark_add u64 string
  | Sys_mark_remove u64 string
  | Sys_free_path string
  | Sys_free_monitors
  | Sys_readlink int
  | Sys_open_cmdline int
  | Sys_read_cmdline int
  | Sys_close_cmdline int
  | Sys_close int

text \<open>
  \<open>Sys_close fd\<close> is \<open>close\<close> on a descriptor the program holds by number (a
  record's descriptor, the notification channel, the signal channel).
  \<open>Sys_close_cmdline pid\<close> is \<open>close\<close> on the descriptor that
  \<open>get_program_cmdline_from_pid\<close> opened itself for \<open>/proc/pid/cmdline\<close>.
\<close>

datatype proc_file = Open_fails | Read_fails | Contents string

datatype read_result = Read_error | Read_bytes "byte list"

record os =
  sigprocmask_ret :: int
  signalfd_ret :: int
  fanotify_init_ret :: int
  fanotify_mark_add_ret :: "string \<Rightarrow> int"
  readlink_proc_self_fd :: "int \<Rightarrow> string option"
  proc_cmdline :: "int \<Rightarrow> proc_file"

text \<open>
  One return of \<open>poll\<close>: its return value, the \<open>POLLIN\<close> bit of each channel,
  and what a \<open>read\<close> on each channel gives in this round.
\<close>

record poll_round =
  poll_ret :: int
  sig_pollin :: bool
  sig_read_ret :: int
  ssi_signo :: u32
  fan_pollin :: bool
  fan_read :: read_result

text \<open>
  Modelled from the spec: \<open>struct fanotify_event_metadata\<close> is declared in
  \<^verbatim>\<open>sys/fanotify.h\<close>, not in the repository. The spec names a fixed-size header
  with the record length, the category mask, the process id and the descriptor; the
  offsets are those of the Linux header on a little-endian machine (length at 0, mask
  at 8, descriptor at 16, process id at 20, 24 bytes in all). The fields carry the
  prefix \<open>meta_\<close> so that \<open>fd\<close>, \<open>pid\<close> and \<open>mask\<close> stay free for variables.
\<close>

record fanotify_event_metadata =
  meta_event_len :: u32
  meta_mask :: u64
  meta_fd :: u32
  meta_pid :: u32

definition FAN_EVENT_METADATA_LEN :: nat where "FAN_EVENT_METADATA_LEN = 24"

section \<open>Category names: \<open>getmask\<close> (lines 225-253)\<close>

text \<open>\<open>tolower\<close> of the C locale.\<close>

definition tolower :: "char \<Rightarrow> char" where
  "tolower c =
     (let n = of_char c :: nat in if 65 \<le> n \<and> n \<le> 90 then char_of (n + 32) else c)"

text \<open>\<open>strcasecmp(a, b) == 0\<close>.\<close>

definition strcasecmp_is0 :: "string \<Rightarrow> string \<Rightarrow> bool" where
  "strcasecmp_is0 a b = (map tolower a = map tolower b)"

text \<open>
  \<open>strcasestr(haystack, needle)\<close>: the suffix of the haystack that starts at the
  first occurrence of the needle, compared without case; \<open>None\<close> is \<open>NULL\<close>.
\<close>

fun strcasestr :: "string \<Rightarrow> string \<Rightarrow> string option" where
  "strcasestr [] needle = (if needle = [] then Some [] else None)"
| "strcasestr (c # cs) needle =
     (if strcasecmp_is0 (take (length needle) (c # cs)) needle then Some (c # cs)
      else strcasestr cs needle)"

text \<open>The table \<open>fanmask\<close>, without its \<open>NULL\<close> sentinel.\<close>

definition fanmask :: "(string \<times> u64) list" where
  "fanmask =
     [(''ACCESS'', FAN_ACCESS),
      (''MODIFY'', FAN_MODIFY),
      (''CLOSE_WRITE'', FAN_CLOSE_WRITE),
      (''CLOSE_NOWRITE'', FAN_CLOSE_NOWRITE),
      (''OPEN'', FAN_OPEN),
      (''ONDIR'', FAN_ONDIR),
      (''EVENT_ON_CHILD'', FAN_EVENT_ON_CHILD)]"

text \<open>The \<open>do ... while\<close> loop over the table; 0 when the sentinel is reached.\<close>

fun fanmask_lookup :: "string \<Rightarrow> (string \<times> u64) list \<Rightarrow> u64" where
  "fanmask_lookup body [] = 0"
| "fanmask_lookup body ((name, v) # rest) =
     (if strcasecmp_is0 body name then v else fanmask_lookup body rest)"

definition getmask :: "string \<Rightarrow> u64" where
  "getmask name =
     (let prefix = ''FAN_'';
          body = (case strcasestr name prefix of
                    None \<Rightarrow> name
                  | Some found \<Rightarrow> drop (length prefix) found)
      in fanmask_lookup body fanmask)"

section \<open>Option parsing in \<open>main\<close> (lines 272-302)\<close>

text \<open>
  The \<open>for\<close> loop from index \<open>i\<close>; the result is the value of \<open>i\<close> and of
  \<open>event_mask\<close> when the loop is left. A category that \<open>getmask\<close> maps to 0
  leaves the mask as it is.
\<close>

function parse_options :: "string list \<Rightarrow> nat \<Rightarrow> u64 \<Rightarrow> nat \<times> u64" where
  "parse_options argv i event_mask =
     (if i < length argv then
        if argv ! i = ''+e'' then
          (if Suc i < length argv then
             (let mask = getmask (argv ! Suc i)
              in parse_options argv (Suc (Suc i))
                   (if mask = 0 then event_mask else event_mask OR mask))
           else (Suc i, event_mask))
        else if argv ! i = ''-e'' then
          (if Suc i < length argv then
             (let mask = getmask (argv ! Suc i)
              in parse_options argv (Suc (Suc i))
                   (if mask = 0 then event_mask else event_mask AND NOT mask))
           else (Suc i, event_mask))
        else (i, event_mask)
      else (i, event_mask))"
  by pat_completeness auto
termination
  by (relation "measure (\<lambda>(argv, i, event_mask). length argv - i)") auto

declare parse_options.simps [simp del]

text \<open>
  Line 272 and the loop: \<open>+e\<close> as \<open>argv[1]\<close> clears the mask first. Only called
  with \<open>argc \<ge> 2\<close>.
\<close>

definition main_parse :: "string list \<Rightarrow> nat \<times> u64" where
  "main_parse argv =
     parse_options argv 1 (if argv ! 1 = ''+e'' then 0 else initial_event_mask)"

section \<open>Metadata resolution (lines 59-100)\<close>

text \<open>
  \<open>get_program_cmdline_from_pid\<close>: \<open>None\<close> is \<open>NULL\<close>. The file gives at most
  \<open>buffer_size - 1\<close> bytes in the one \<open>read\<close>; every NUL among them becomes a
  space, also the one that ends the last argument.
\<close>

definition get_program_cmdline_from_pid ::
    "os \<Rightarrow> int \<Rightarrow> nat \<Rightarrow> string option \<times> action list" where
  "get_program_cmdline_from_pid sys pid buffer_size =
     (case proc_cmdline sys pid of
        Open_fails \<Rightarrow> (None, [Sys_open_cmdline pid])
      | Read_fails \<Rightarrow>
          (None, [Sys_open_cmdline pid, Sys_read_cmdline pid, Sys_close_cmdline pid])
      | Contents bytes \<Rightarrow>
          (let buffer = take (size_pred buffer_size) bytes;
               len = int (length buffer)
           in if len \<le> 0 then
                (None, [Sys_open_cmdline pid, Sys_read_cmdline pid, Sys_close_cmdline pid])
              else
                (Some (map (\<lambda>c. if c = CHR 0x00 then CHR '' '' else c) buffer),
                 [Sys_open_cmdline pid, Sys_read_cmdline pid, Sys_close_cmdline pid])))"

text \<open>
  \<open>get_file_path_from_fd\<close>: no \<open>readlink\<close> is made for \<open>fd \<le> 0\<close>.
\<close>

definition get_file_path_from_fd ::
    "os \<Rightarrow> int \<Rightarrow> nat \<Rightarrow> string option \<times> action list" where
  "get_file_path_from_fd sys fd buffer_size =
     (if fd \<le> 0 then (None, [])
      else case readlink_proc_self_fd sys fd of
             None \<Rightarrow> (None, [Sys_readlink fd])
           | Some target \<Rightarrow> (Some (take (size_pred buffer_size) target), [Sys_readlink fd]))"

section \<open>Reporting one event: \<open>event_process\<close> (lines 102-136)\<close>

definition mask_names :: "u64 \<Rightarrow> string list" where
  "mask_names msk =
     (if msk AND FAN_OPEN \<noteq> 0 then [''FAN_OPEN ''] else []) @
     (if msk AND FAN_ACCESS \<noteq> 0 then [''FAN_ACCESS ''] else []) @
     (if msk AND FAN_MODIFY \<noteq> 0 then [''FAN_MODIFY ''] else []) @
     (if msk AND FAN_CLOSE_WRITE \<noteq> 0 then [''FAN_CLOSE_WRITE ''] else []) @
     (if msk AND FAN_CLOSE_NOWRITE \<noteq> 0 then [''FAN_CLOSE_NOWRITE ''] else [])"

text \<open>
  The arguments of each \<open>printf\<close> are evaluated before it prints, so each lookup
  precedes its line. The last statement closes the record's descriptor, whatever the
  lookups gave.
\<close>

definition event_process :: "os \<Rightarrow> fanotify_event_metadata \<Rightarrow> action list" where
  "event_process sys event =
     (let pid = sint (meta_pid event);
          fd = sint (meta_fd event);
          (path, t1) = get_file_path_from_fd sys fd PATH_MAX;
          (cmdline, t2) = get_program_cmdline_from_pid sys pid PATH_MAX
      in t1 @ [Report_event pid (case path of Some p \<Rightarrow> p | None \<Rightarrow> ''unknown'')] @
         [Report_mask pid (mask_names (meta_mask event))] @
         t2 @ [Report_cmdline pid (case cmdline of Some c \<Rightarrow> c | None \<Rightarrow> ''unknown'')] @
         [Sys_close fd])"

section \<open>Decoding a buffer of events (lines 373-381)\<close>

text \<open>A little-endian unsigned integer.\<close>

fun le_word :: "byte list \<Rightarrow> 'a::len word" where
  "le_word [] = 0"
| "le_word (b # bs) = ucast b OR push_bit 8 (le_word bs)"

text \<open>
  The header fields of the record that starts with the bytes \<open>h\<close>, and reading
  the header at offset \<open>off\<close> of the bytes that \<open>read\<close> returned; \<open>None\<close> when
  the header does not lie within them.
\<close>

definition cast_metadata :: "byte list \<Rightarrow> fanotify_event_metadata" where
  "cast_metadata h =
     \<lparr>meta_event_len = le_word (take 4 h),
      meta_mask = le_word (take 8 (drop 8 h)),
      meta_fd = le_word (take 4 (drop 16 h)),
      meta_pid = le_word (take 4 (drop 20 h))\<rparr>"

definition get_metadata :: "byte list \<Rightarrow> nat \<Rightarrow> fanotify_event_metadata option" where
  "get_metadata buffer off =
     (if off + FAN_EVENT_METADATA_LEN \<le> length buffer then
        Some (cast_metadata (take FAN_EVENT_METADATA_LEN (drop off buffer)))
      else None)"

datatype fault = Out_of_bounds

text \<open>
  Modelled from the spec: the macros \<open>FAN_EVENT_OK\<close> and \<open>FAN_EVENT_NEXT\<close> are
  defined in \<^verbatim>\<open>sys/fanotify.h\<close>, not in the repository. By the spec a full header
  must fit in what remains, and the declared length must be at least the header size
  and at most what remains; the next record starts the declared length further on.

  The loop \<open>while (FAN_EVENT_OK (metadata, length)) { ...; metadata = FAN_EVENT_NEXT
  (metadata, length); }\<close> with the loop body \<open>f\<close>; \<open>off\<close> is the offset of
  \<open>metadata\<close> in the buffer and \<open>len\<close> the remaining \<open>length\<close>. A read outside the
  bytes returned is the fault \<open>Out_of_bounds\<close>.
\<close>

function fan_event_loop ::
    "(fanotify_event_metadata \<Rightarrow> 'a list) \<Rightarrow> byte list \<Rightarrow> nat \<Rightarrow> int \<Rightarrow> fault + 'a list" where
  "fan_event_loop f buffer off len =
     (if len < int FAN_EVENT_METADATA_LEN then Inr []
      else case get_metadata buffer off of
             None \<Rightarrow> Inl Out_of_bounds
           | Some metadata \<Rightarrow>
               (if uint (meta_event_len metadata) \<ge> int FAN_EVENT_METADATA_LEN \<and>
                   uint (meta_event_len metadata) \<le> len
                then
                  (case fan_event_loop f buffer (off + unat (meta_event_len metadata))
                          (len - uint (meta_event_len metadata)) of
                     Inl e \<Rightarrow> Inl e
                   | Inr rest \<Rightarrow> Inr (f metadata @ rest))
                else Inr []))"
  by pat_completeness auto
termination
  by (relation "measure (\<lambda>(f, buffer, off, len). nat len)")
     (auto simp: FAN_EVENT_METADATA_LEN_def)

declare fan_event_loop.simps [simp del]

text \<open>The records the loop hands to its body, in order.\<close>

definition decode :: "byte list \<Rightarrow> fault + fanotify_event_metadata list" where
  "decode buffer = fan_event_loop (\<lambda>metadata. [metadata]) buffer 0 (int (length buffer))"

text \<open>The loop body in \<open>main\<close>, lines 377-379.\<close>

definition main_event_body :: "os \<Rightarrow> fanotify_event_metadata \<Rightarrow> action list" where
  "main_event_body sys metadata =
     event_process sys metadata @
     (if sint (meta_fd metadata) > 0 then [Sys_close (sint (meta_fd metadata))] else [])"

text \<open>
  Lines 364-383: one \<open>read\<close> of at most \<open>FANOTIFY_BUFFER_SIZE\<close> bytes; the
  events are processed only when it returned more than 0.
\<close>

definition read_fanotify_events :: "os \<Rightarrow> read_result \<Rightarrow> fault + action list" where
  "read_fanotify_events sys r =
     (case r of
        Read_error \<Rightarrow> Inr []
      | Read_bytes bytes \<Rightarrow>
          (let buffer = take FANOTIFY_BUFFER_SIZE bytes;
               len = int (length buffer)
           in if len > 0 then fan_event_loop (main_event_body sys) buffer 0 len
              else Inr []))"

section \<open>Start-up and shutdown (lines 138-223)\<close>

text \<open>
  \<open>shutdown_fanotify\<close>: the return value of \<open>fanotify_mark\<close> is not looked at,
  so the answer of the operating system is no input of this function.
\<close>

definition shutdown_fanotify :: "u64 \<Rightarrow> string list \<Rightarrow> int \<Rightarrow> action list" where
  "shutdown_fanotify event_mask monitors fanotify_fd =
     concat (map (\<lambda>path. [Sys_mark_remove event_mask path, Sys_free_path path]) monitors) @
     [Sys_free_monitors, Sys_close fanotify_fd]"

text \<open>The loop of \<open>initialize_fanotify\<close> over the paths; \<open>False\<close> is \<open>return -1\<close>.\<close>

fun add_marks :: "os \<Rightarrow> u64 \<Rightarrow> string list \<Rightarrow> bool \<times> action list" where
  "add_marks sys event_mask [] = (True, [])"
| "add_marks sys event_mask (path # paths) =
     (if fanotify_mark_add_ret sys path < 0 then
        (False, [Sys_mark_add event_mask path, Stderr (Err_add_monitor path)])
      else case add_marks sys event_mask paths of
             (ok, t) \<Rightarrow> (ok, [Sys_mark_add event_mask path, Started_monitoring path] @ t))"

text \<open>
  \<open>initialize_fanotify(argc, argv)\<close> with \<open>argc = length argv\<close>: the monitored
  paths are \<open>argv[1]\<close> to \<open>argv[argc - 1]\<close>. The result is the descriptor (or
  -1), the global \<open>monitors\<close> and the actions.
\<close>

definition initialize_fanotify ::
    "os \<Rightarrow> u64 \<Rightarrow> string list \<Rightarrow> int \<times> string list \<times> action list" where
  "initialize_fanotify sys event_mask argv =
     (if fanotify_init_ret sys < 0 then
        (- 1, [], [Sys_fanotify_init, Stderr Err_fanotify_init])
      else case add_marks sys event_mask (drop 1 argv) of
             (ok, t) \<Rightarrow>
               (if ok then (fanotify_init_ret sys, drop 1 argv, Sys_fanotify_init # t)
                else (- 1, drop 1 argv, Sys_fanotify_init # t)))"

definition shutdown_signals :: "int \<Rightarrow> action list" where
  "shutdown_signals signal_fd = [Sys_close signal_fd]"

definition initialize_signals :: "os \<Rightarrow> int \<times> action list" where
  "initialize_signals sys =
     (if sigprocmask_ret sys < 0 then (- 1, [Sys_sigprocmask, Stderr Err_block_signals])
      else if signalfd_ret sys < 0 then
        (- 1, [Sys_sigprocmask, Sys_signalfd, Stderr Err_signalfd])
      else (signalfd_ret sys, [Sys_sigprocmask, Sys_signalfd]))"

section \<open>The event loop and \<open>main\<close> (lines 255-393)\<close>

datatype loop_result = Loop_break | Loop_exit int | Loop_waiting | Loop_fault

text \<open>
  The loop \<open>for (;;)\<close> over the returns of \<open>poll\<close>. When the list of rounds is
  used up the program is blocked in \<open>poll\<close> (\<open>Loop_waiting\<close>).
\<close>

fun main_loop :: "os \<Rightarrow> poll_round list \<Rightarrow> loop_result \<times> action list" where
  "main_loop sys [] = (Loop_waiting, [])"
| "main_loop sys (r # rounds) =
     (if poll_ret r < 0 then (Loop_exit EXIT_FAILURE, [Stderr Err_poll])
      else if sig_pollin r \<and> sig_read_ret r \<noteq> SIGINFO_SIZE then
        (Loop_exit EXIT_FAILURE, [Stderr Err_read_signal])
      else if sig_pollin r \<and> (ssi_signo r = SIGINT \<or> ssi_signo r = SIGTERM) then
        (Loop_break, [])
      else
        (let t1 = (if sig_pollin r then [Stderr Err_unexpected_signal] else [])
         in case (if fan_pollin r then read_fanotify_events sys (fan_read r) else Inr []) of
              Inl e \<Rightarrow> (Loop_fault, t1)
            | Inr t2 \<Rightarrow>
                (case main_loop sys rounds of (res, t3) \<Rightarrow> (res, t1 @ t2 @ t3))))"

datatype outcome = Exited int | Waiting | Fault

definition main :: "os \<Rightarrow> string list \<Rightarrow> poll_round list \<Rightarrow> outcome \<times> action list" where
  "main sys argv rounds =
     (if length argv < 2 then (Exited EXIT_FAILURE, [Usage])
      else
        (case main_parse argv of
           (i, event_mask) \<Rightarrow>
             (if length argv \<le> i then (Exited EXIT_FAILURE, [Usage])
              else
                (case initialize_signals sys of
                   (signal_fd, t1) \<Rightarrow>
                     (if signal_fd < 0 then
                        (Exited EXIT_FAILURE, t1 @ [Stderr Err_init_signals])
                      else
                        (case initialize_fanotify sys event_mask (drop (i - 1) argv) of
                           (fanotify_fd, monitors, t2) \<Rightarrow>
                             (if fanotify_fd < 0 then
                                (Exited EXIT_FAILURE, t1 @ t2 @ [Stderr Err_init_fanotify])
                              else
                                (case main_loop sys rounds of
                                   (Loop_exit status, t3) \<Rightarrow> (Exited status, t1 @ t2 @ t3)
                                 | (Loop_waiting, t3) \<Rightarrow> (Waiting, t1 @ t2 @ t3)
                                 | (Loop_fault, t3) \<Rightarrow> (Fault, t1 @ t2 @ t3)
                                 | (Loop_break, t3) \<Rightarrow>
                                     (Exited EXIT_SUCCESS,
                                      t1 @ t2 @ t3 @
                                      shutdown_fanotify event_mask monitors fanotify_fd @
                                      shutdown_signals signal_fd @ [Exiting])))))))))"

section \<open>The specification's wording, for comparison with the code\<close>

text \<open>
  A mask directive of the command line: \<open>+e NAME\<close> or \<open>-e NAME\<close>, and the two
  arguments that spell it.
\<close>

datatype directive = Add string | Remove string

fun directive_args :: "directive \<Rightarrow> string list" where
  "directive_args (Add name) = [''+e'', name]"
| "directive_args (Remove name) = [''-e'', name]"

definition directives_args :: "directive list \<Rightarrow> string list" where
  "directives_args ds = concat (map directive_args ds)"

text \<open>
  The specification's \<open>apply(mask, directive)\<close>: Add is bitwise OR with the
  category's bit, Remove is bitwise AND-NOT.
\<close>

fun apply_directive :: "u64 \<Rightarrow> directive \<Rightarrow> u64" where
  "apply_directive m (Add name) = m OR getmask name"
| "apply_directive m (Remove name) = m AND NOT (getmask name)"

text \<open>The starting mask: zero when the first argument is \<open>+e\<close>, the default otherwise.\<close>

fun starting_mask :: "directive list \<Rightarrow> u64" where
  "starting_mask (Add name # ds) = 0"
| "starting_mask ds = initial_event_mask"

definition is_directive_token :: "string \<Rightarrow> bool" where
  "is_directive_token a = (a = ''+e'' \<or> a = ''-e'')"

text \<open>
  The specification's \<open>resolve_category\<close>: a name matches a category when it is the
  category's name, bare or with the prefix \<open>FAN_\<close>, compared without case; no match
  is 0.
\<close>

fun resolve_category_in :: "string \<Rightarrow> (string \<times> u64) list \<Rightarrow> u64" where
  "resolve_category_in name [] = 0"
| "resolve_category_in name ((n, v) # rest) =
     (if strcasecmp_is0 name n \<or> strcasecmp_is0 name (''FAN_'' @ n) then v
      else resolve_category_in name rest)"

definition resolve_category :: "string \<Rightarrow> u64" where
  "resolve_category name = resolve_category_in name fanmask"

text \<open>
  The specification's \<open>resolve_cmdline\<close> on the bytes of the file: a trailing
  separator is trimmed, every other separator becomes a space.
\<close>

definition resolve_cmdline_spec :: "string \<Rightarrow> string" where
  "resolve_cmdline_spec bytes =
     map (\<lambda>c. if c = CHR 0x00 then CHR '' '' else c)
       (if bytes \<noteq> [] \<and> last bytes = CHR 0x00 then butlast bytes else bytes)"

subsection \<open>Reading a trace\<close>

text \<open>The actions that register, deregister and release a path, read off a trace.\<close>

fun marks_added :: "action list \<Rightarrow> (u64 \<times> string) list" where
  "marks_added [] = []"
| "marks_added (Sys_mark_add m p # t) = (m, p) # marks_added t"
| "marks_added (a # t) = marks_added t"

fun marks_removed :: "action list \<Rightarrow> (u64 \<times> string) list" where
  "marks_removed [] = []"
| "marks_removed (Sys_mark_remove m p # t) = (m, p) # marks_removed t"
| "marks_removed (a # t) = marks_removed t"

fun paths_freed :: "action list \<Rightarrow> string list" where
  "paths_freed [] = []"
| "paths_freed (Sys_free_path p # t) = p # paths_freed t"
| "paths_freed (a # t) = paths_freed t"

text \<open>A trace without any of these actions.\<close>

definition no_watch_actions :: "action list \<Rightarrow> bool" where
  "no_watch_actions t = (marks_added t = [] \<and> marks_removed t = [] \<and> paths_freed t = [])"

text \<open>Actions of core initialisation: opening either channel or registering a mark.\<close>

fun is_init_action :: "action \<Rightarrow> bool" where
  "is_init_action Sys_sigprocmask = True"
| "is_init_action Sys_signalfd = True"
| "is_init_action Sys_fanotify_init = True"
| "is_init_action (Sys_mark_add m p) = True"
| "is_init_action a = False"

subsection \<open>Records, rounds and start-up\<close>

text \<open>
  A record in a buffer, by the specification: its declared length is the length field
  of its header. It is well formed when the declared length is at least the header
  size and is the number of its bytes; it is truncated when the header does not fit
  in its bytes or it declares more bytes than there are.
\<close>

definition declared_length :: "byte list \<Rightarrow> nat" where
  "declared_length r = unat (meta_event_len (cast_metadata r))"

definition well_formed_record :: "byte list \<Rightarrow> bool" where
  "well_formed_record r =
     (FAN_EVENT_METADATA_LEN \<le> length r \<and> declared_length r = length r)"

definition truncated_record :: "byte list \<Rightarrow> bool" where
  "truncated_record t =
     (t \<noteq> [] \<and> (length t < FAN_EVENT_METADATA_LEN \<or> length t < declared_length t))"

text \<open>A round in which \<open>poll\<close> reports a recognised termination signal.\<close>

definition termination_round :: "poll_round \<Rightarrow> bool" where
  "termination_round r =
     (0 \<le> poll_ret r \<and> sig_pollin r \<and> sig_read_ret r = SIGINFO_SIZE \<and>
      (ssi_signo r = SIGINT \<or> ssi_signo r = SIGTERM))"

text \<open>Start-up succeeds: both channels open and every path can be marked.\<close>

definition startup_succeeds :: "os \<Rightarrow> string list \<Rightarrow> bool" where
  "startup_succeeds sys paths =
     (0 \<le> sigprocmask_ret sys \<and> 0 \<le> signalfd_ret sys \<and> 0 \<le> fanotify_init_ret sys \<and>
      list_all (\<lambda>path. 0 \<le> fanotify_mark_add_ret sys path) paths)"

subsection \<open>Concrete inputs\<close>

text \<open>
  An operating system where every start-up call succeeds (signal descriptor 3,
  notification descriptor 4), descriptor 5 is \<open>/tmp/f\<close>, and process 100 was started
  as \<open>ls -l\<close>.
\<close>

definition example_os :: os where
  "example_os =
     \<lparr>sigprocmask_ret = 0, signalfd_ret = 3, fanotify_init_ret = 4,
      fanotify_mark_add_ret = (\<lambda>path. 0),
      readlink_proc_self_fd = (\<lambda>fd. if fd = 5 then Some ''/tmp/f'' else None),
      proc_cmdline =
        (\<lambda>pid. if pid = 100 then Contents (''ls'' @ [CHR 0x00] @ ''-l'' @ [CHR 0x00])
               else Open_fails)\<rparr>"

text \<open>One record of 24 bytes: mask \<open>FAN_OPEN\<close>, descriptor 5, process 100.\<close>

definition example_record :: "byte list" where
  "example_record =
     [24, 0, 0, 0, 3, 0, 24, 0,
      0x20, 0, 0, 0, 0, 0, 0, 0,
      5, 0, 0, 0,
      100, 0, 0, 0]"

text \<open>A record of 24 bytes without a descriptor (\<open>FAN_NOFD\<close>, -1), process 7.\<close>

definition example_record_nofd :: "byte list" where
  "example_record_nofd =
     [24, 0, 0, 0, 3, 0, 24, 0,
      0x01, 0, 0, 0, 0, 0, 0, 0,
      0xFF, 0xFF, 0xFF, 0xFF,
      7, 0, 0, 0]"

text \<open>A record that declares 48 bytes, of which only the 24 of the header are there.\<close>

definition example_record_cut :: "byte list" where
  "example_record_cut =
     [48, 0, 0, 0, 3, 0, 24, 0,
      0x02, 0, 0, 0, 0, 0, 0, 0,
      6, 0, 0, 0,
      100, 0, 0, 0]"

definition round_idle :: poll_round where
  "round_idle =
     \<lparr>poll_ret = 1, sig_pollin = False, sig_read_ret = 0, ssi_signo = 0,
      fan_pollin = False, fan_read = Read_bytes []\<rparr>"

text \<open>The notification channel is readable and the \<open>read\<close> fails.\<close>

definition round_fan_error :: poll_round where
  "round_fan_error = round_idle\<lparr>fan_pollin := True, fan_read := Read_error\<rparr>"

text \<open>\<open>SIGTERM\<close> arrives while one event is pending on the notification channel.\<close>

definition round_sigterm :: poll_round where
  "round_sigterm =
     \<lparr>poll_ret = 2, sig_pollin = True, sig_read_ret = 128, ssi_signo = 15,
      fan_pollin = True, fan_read = Read_bytes example_record\<rparr>"

text \<open>The signal channel is readable and the \<open>read\<close> fails.\<close>

definition round_sig_error :: poll_round where
  "round_sig_error = round_idle\<lparr>sig_pollin := True, sig_read_ret := - 1\<rparr>"

text \<open>One event arrives.\<close>

definition round_event :: poll_round where
  "round_event = round_idle\<lparr>fan_pollin := True, fan_read := Read_bytes example_record\<rparr>"

section \<open>Evaluation lemmas\<close>

lemma tolower_Char:
  "tolower (Char b0 b1 b2 b3 b4 b5 b6 b7) =
     (if 65 \<le> (of_char (Char b0 b1 b2 b3 b4 b5 b6 b7) :: nat) \<and>
         (of_char (Char b0 b1 b2 b3 b4 b5 b6 b7) :: nat) \<le> 90
      then Char b0 b1 b2 b3 b4 True b6 b7 else Char b0 b1 b2 b3 b4 b5 b6 b7)"
  by (cases b0; cases b1; cases b2; cases b3; cases b4; cases b5; cases b6; cases b7)
     (simp_all add: tolower_def char_of_def bit_Suc_0_iff)

lemma tolower_idem: "tolower (tolower c) = tolower c"
  by (simp add: tolower_def Let_def)

lemma size_pred_PATH_MAX: "size_pred PATH_MAX = 4095"
  by (simp add: size_pred_def PATH_MAX_def)

lemma example_metadata:
  "get_metadata example_record 0 =
     Some \<lparr>meta_event_len = 24, meta_mask = 32, meta_fd = 5, meta_pid = 100\<rparr>"
  by (simp add: get_metadata_def cast_metadata_def example_record_def
      FAN_EVENT_METADATA_LEN_def)

lemma example_event_body:
  "main_event_body example_os
     \<lparr>meta_event_len = 24, meta_mask = 32, meta_fd = 5, meta_pid = 100\<rparr> =
     [Sys_readlink 5, Report_event 100 ''/tmp/f'', Report_mask 100 [''FAN_OPEN ''],
      Sys_open_cmdline 100, Sys_read_cmdline 100, Sys_close_cmdline 100,
      Report_cmdline 100 ''ls -l '', Sys_close 5, Sys_close 5]"
  by (simp add: main_event_body_def event_process_def get_file_path_from_fd_def
      get_program_cmdline_from_pid_def example_os_def size_pred_PATH_MAX mask_names_def
      FAN_OPEN_def FAN_ACCESS_def FAN_MODIFY_def FAN_CLOSE_WRITE_def FAN_CLOSE_NOWRITE_def)

lemma example_read:
  "read_fanotify_events example_os (Read_bytes example_record) =
     Inr [Sys_readlink 5, Report_event 100 ''/tmp/f'', Report_mask 100 [''FAN_OPEN ''],
          Sys_open_cmdline 100, Sys_read_cmdline 100, Sys_close_cmdline 100,
          Report_cmdline 100 ''ls -l '', Sys_close 5, Sys_close 5]"
proof -
  have len: "length example_record = 24"
    by (simp add: example_record_def)
  have ne: "example_record \<noteq> []"
    by (simp add: example_record_def)
  have "fan_event_loop (main_event_body example_os) example_record 0 24 =
          Inr (main_event_body example_os
                 \<lparr>meta_event_len = 24, meta_mask = 32, meta_fd = 5, meta_pid = 100\<rparr>)"
    by (simp add: fan_event_loop.simps example_metadata FAN_EVENT_METADATA_LEN_def)
  then show ?thesis
    by (simp add: read_fanotify_events_def len ne FANOTIFY_BUFFER_SIZE_def
        example_event_body)
qed

section \<open>Releasing a record's descriptor\<close>

lemma count_close_path:
  "get_file_path_from_fd sys fd n = (r, t) \<Longrightarrow> count_list t (Sys_close d) = 0"
  by (auto simp: get_file_path_from_fd_def split: option.splits if_splits)

lemma count_close_cmdline:
  "get_program_cmdline_from_pid sys pid n = (r, t) \<Longrightarrow> count_list t (Sys_close d) = 0"
  by (auto simp: get_program_cmdline_from_pid_def Let_def split: proc_file.splits if_splits)

text \<open>
  \<open>event_process\<close> alone closes the record's descriptor exactly once, whatever the
  two lookups give.
\<close>

lemma count_close_event_process:
  "count_list (event_process sys event) (Sys_close (sint (meta_fd event))) = 1"
  by (auto simp: event_process_def Let_def count_close_path count_close_cmdline
      split: prod.splits)

lemma main_event_body_closes_once:
  "sint (meta_fd metadata) \<le> 0 \<Longrightarrow>
   count_list (main_event_body sys metadata) (Sys_close (sint (meta_fd metadata))) = 1"
  by (simp add: main_event_body_def count_close_event_process)

text \<open>
  Claim C1 says that the descriptor of every record is closed exactly once on every
  path of the per-record step. The code does otherwise: the step in \<open>main\<close> calls
  \<open>event_process\<close>, which closes the descriptor, and then closes it again when it is
  positive. For every record with a positive descriptor, and every answer of the
  operating system, \<open>close\<close> is called on it exactly twice.
\<close>

theorem main_event_body_closes_twice:
  "0 < sint (meta_fd metadata) \<Longrightarrow>
   count_list (main_event_body sys metadata) (Sys_close (sint (meta_fd metadata))) = 2"
  by (simp add: main_event_body_def count_close_event_process)

theorem main_event_body_closes_twice_witness:
  "0 < sint (meta_fd \<lparr>meta_event_len = 24, meta_mask = 32, meta_fd = 5, meta_pid = 100\<rparr>) \<and>
   count_list
     (main_event_body example_os
        \<lparr>meta_event_len = 24, meta_mask = 32, meta_fd = 5, meta_pid = 100\<rparr>)
     (Sys_close 5) = 2"
  using main_event_body_closes_twice
    [of "\<lparr>meta_event_len = 24, meta_mask = 32, meta_fd = 5, meta_pid = 100\<rparr>" example_os]
  by simp

section \<open>Path resolution\<close>

text \<open>
  Claim C9: path resolution returns \<open>None\<close> for every descriptor less than or equal
  to zero, so also for descriptor 0, and makes no lookup (no \<open>readlink\<close>) for it.
\<close>

theorem get_file_path_from_fd_nonpositive:
  "fd \<le> 0 \<Longrightarrow> get_file_path_from_fd sys fd buffer_size = (None, [])"
  by (simp add: get_file_path_from_fd_def)

theorem get_file_path_from_fd_nonpositive_witness:
  "(0::int) \<le> 0 \<and>
   readlink_proc_self_fd
     (example_os\<lparr>readlink_proc_self_fd := (\<lambda>fd. Some ''/dev/pts/0'')\<rparr>) 0 =
     Some ''/dev/pts/0'' \<and>
   get_file_path_from_fd
     (example_os\<lparr>readlink_proc_self_fd := (\<lambda>fd. Some ''/dev/pts/0'')\<rparr>) 0 PATH_MAX =
     (None, []) \<and>
   (- 1 :: int) \<le> 0 \<and> get_file_path_from_fd example_os (- 1) PATH_MAX = (None, [])"
  using get_file_path_from_fd_nonpositive
      [of 0 "example_os\<lparr>readlink_proc_self_fd := (\<lambda>fd. Some ''/dev/pts/0'')\<rparr>" PATH_MAX]
    get_file_path_from_fd_nonpositive [of "- 1" example_os PATH_MAX]
  by simp

section \<open>Command-line resolution\<close>

text \<open>
  Claim C7 as stated (every separator becomes a space, a trailing separator is
  trimmed) fails on the code: for the file contents \<open>ls\<close> NUL \<open>-l\<close> NUL the code
  returns \<open>ls -l\<close> followed by a space, where the claim asks for \<open>ls -l\<close>.
\<close>

theorem cmdline_trailing_separator_counterexample:
  "proc_cmdline example_os 100 = Contents (''ls'' @ [CHR 0x00] @ ''-l'' @ [CHR 0x00]) \<and>
   fst (get_program_cmdline_from_pid example_os 100 PATH_MAX) = Some ''ls -l '' \<and>
   resolve_cmdline_spec (''ls'' @ [CHR 0x00] @ ''-l'' @ [CHR 0x00]) = ''ls -l'' \<and>
   fst (get_program_cmdline_from_pid example_os 100 PATH_MAX) \<noteq>
     Some (resolve_cmdline_spec (''ls'' @ [CHR 0x00] @ ''-l'' @ [CHR 0x00]))"
  by (simp add: get_program_cmdline_from_pid_def example_os_def size_pred_PATH_MAX
      resolve_cmdline_spec_def)

text \<open>
  Claim C7, amended: command-line resolution returns \<open>None\<close> when the file cannot be
  opened, when the read fails and when it returns no bytes. Otherwise it returns the
  bytes read (as many as fit the buffer) with every separator replaced by a space,
  position by position; a trailing separator is not trimmed but rendered as a
  trailing space.
\<close>

theorem get_program_cmdline_from_pid_result:
  "(proc_cmdline sys pid = Open_fails \<longrightarrow>
      fst (get_program_cmdline_from_pid sys pid buffer_size) = None) \<and>
   (proc_cmdline sys pid = Read_fails \<longrightarrow>
      fst (get_program_cmdline_from_pid sys pid buffer_size) = None) \<and>
   (proc_cmdline sys pid = Contents [] \<longrightarrow>
      fst (get_program_cmdline_from_pid sys pid buffer_size) = None) \<and>
   (\<forall>bytes. proc_cmdline sys pid = Contents bytes \<and> bytes \<noteq> [] \<and>
      0 < size_pred buffer_size \<longrightarrow>
      (\<exists>s. fst (get_program_cmdline_from_pid sys pid buffer_size) = Some s \<and>
           length s = min (length bytes) (size_pred buffer_size) \<and>
           (\<forall>i < length s.
              s ! i = (if bytes ! i = CHR 0x00 then CHR '' '' else bytes ! i)) \<and>
           (length bytes \<le> size_pred buffer_size \<and> last bytes = CHR 0x00 \<longrightarrow>
              last s = CHR '' '')))"
  by (auto simp: get_program_cmdline_from_pid_def Let_def last_map)

theorem get_program_cmdline_from_pid_result_witness:
  "proc_cmdline example_os 1 = Open_fails \<and>
   fst (get_program_cmdline_from_pid example_os 1 PATH_MAX) = None \<and>
   proc_cmdline (example_os\<lparr>proc_cmdline := (\<lambda>pid. Read_fails)\<rparr>) 1 = Read_fails \<and>
   fst (get_program_cmdline_from_pid
          (example_os\<lparr>proc_cmdline := (\<lambda>pid. Read_fails)\<rparr>) 1 PATH_MAX) = None \<and>
   proc_cmdline (example_os\<lparr>proc_cmdline := (\<lambda>pid. Contents [])\<rparr>) 1 = Contents [] \<and>
   fst (get_program_cmdline_from_pid
          (example_os\<lparr>proc_cmdline := (\<lambda>pid. Contents [])\<rparr>) 1 PATH_MAX) = None \<and>
   proc_cmdline example_os 100 = Contents (''ls'' @ [CHR 0x00] @ ''-l'' @ [CHR 0x00]) \<and>
   ''ls'' @ [CHR 0x00] @ ''-l'' @ [CHR 0x00] \<noteq> [] \<and>
   0 < size_pred PATH_MAX \<and>
   length (''ls'' @ [CHR 0x00] @ ''-l'' @ [CHR 0x00]) \<le> size_pred PATH_MAX \<and>
   last (''ls'' @ [CHR 0x00] @ ''-l'' @ [CHR 0x00]) = CHR 0x00 \<and>
   fst (get_program_cmdline_from_pid example_os 100 PATH_MAX) = Some ''ls -l '' \<and>
   last ''ls -l '' = CHR '' ''"
  using get_program_cmdline_from_pid_result [of example_os 1 PATH_MAX]
    get_program_cmdline_from_pid_result
      [of "example_os\<lparr>proc_cmdline := (\<lambda>pid. Read_fails)\<rparr>" 1 PATH_MAX]
    get_program_cmdline_from_pid_result
      [of "example_os\<lparr>proc_cmdline := (\<lambda>pid. Contents [])\<rparr>" 1 PATH_MAX]
    get_program_cmdline_from_pid_result [of example_os 100 PATH_MAX]
  by (simp add: get_program_cmdline_from_pid_def example_os_def size_pred_PATH_MAX)

section \<open>Category lookup is insensitive to case\<close>

lemma map_tolower_idem: "map tolower (map tolower a) = map tolower a"
  by (induction a) (simp_all add: tolower_idem)

lemma strcasecmp_is0_tolower: "strcasecmp_is0 (map tolower a) b = strcasecmp_is0 a b"
  unfolding strcasecmp_is0_def map_tolower_idem ..

lemma strcasestr_tolower:
  "strcasestr (map tolower s) needle = map_option (map tolower) (strcasestr s needle)"
proof (induction s)
  case Nil
  show ?case by simp
next
  case (Cons c cs)
  have "take (length needle) (map tolower (c # cs)) = map tolower (take (length needle) (c # cs))"
    by (rule take_map)
  then have "strcasecmp_is0 (take (length needle) (map tolower (c # cs))) needle =
        strcasecmp_is0 (take (length needle) (c # cs)) needle"
    by (simp only: strcasecmp_is0_tolower)
  with Cons show ?case by (simp del: take_Cons')
qed

lemma fanmask_lookup_tolower: "fanmask_lookup (map tolower b) table = fanmask_lookup b table"
  by (induction table) (auto simp: strcasecmp_is0_tolower)

lemma getmask_tolower: "getmask (map tolower s) = getmask s"
  by (cases "strcasestr s ''FAN_''")
     (simp_all add: getmask_def strcasestr_tolower fanmask_lookup_tolower drop_map)

lemma getmask_strcasecmp: "strcasecmp_is0 s n \<Longrightarrow> getmask s = getmask n"
  by (metis getmask_tolower strcasecmp_is0_def)

lemmas FAN_defs = FAN_ACCESS_def FAN_MODIFY_def FAN_CLOSE_WRITE_def FAN_CLOSE_NOWRITE_def
  FAN_OPEN_def FAN_ONDIR_def FAN_EVENT_ON_CHILD_def

lemma getmask_names:
  "getmask ''ACCESS'' = FAN_ACCESS" "getmask ''FAN_ACCESS'' = FAN_ACCESS"
  "getmask ''MODIFY'' = FAN_MODIFY" "getmask ''FAN_MODIFY'' = FAN_MODIFY"
  "getmask ''CLOSE_WRITE'' = FAN_CLOSE_WRITE" "getmask ''FAN_CLOSE_WRITE'' = FAN_CLOSE_WRITE"
  "getmask ''CLOSE_NOWRITE'' = FAN_CLOSE_NOWRITE" "getmask ''FAN_CLOSE_NOWRITE'' = FAN_CLOSE_NOWRITE"
  "getmask ''OPEN'' = FAN_OPEN" "getmask ''FAN_OPEN'' = FAN_OPEN"
  "getmask ''ONDIR'' = FAN_ONDIR" "getmask ''FAN_ONDIR'' = FAN_ONDIR"
  "getmask ''EVENT_ON_CHILD'' = FAN_EVENT_ON_CHILD" "getmask ''FAN_EVENT_ON_CHILD'' = FAN_EVENT_ON_CHILD"
  by (simp_all add: getmask_def strcasecmp_is0_def fanmask_def tolower_Char FAN_defs)

lemma getmask_recognized:
  assumes "(n, v) \<in> set fanmask"
    and "strcasecmp_is0 s n \<or> strcasecmp_is0 s (''FAN_'' @ n)"
  shows "getmask s = v"
proof -
  from assms(2) have "getmask s = getmask n \<or> getmask s = getmask (''FAN_'' @ n)"
    using getmask_strcasecmp by blast
  moreover from assms(1) have "getmask n = v \<and> getmask (''FAN_'' @ n) = v"
    by (auto simp: fanmask_def getmask_names)
  ultimately show ?thesis by auto
qed

lemma resolve_category_in_getmask:
  "set table \<subseteq> set fanmask \<Longrightarrow> resolve_category_in s table \<noteq> 0 \<Longrightarrow>
   getmask s = resolve_category_in s table"
proof (induction table)
  case Nil
  then show ?case by simp
next
  case (Cons e table)
  obtain n v where e: "e = (n, v)" by (cases e)
  show ?case
  proof (cases "strcasecmp_is0 s n \<or> strcasecmp_is0 s (''FAN_'' @ n)")
    case True
    moreover from Cons.prems(1) e have "(n, v) \<in> set fanmask" by simp
    ultimately have "getmask s = v" by (rule getmask_recognized [rotated])
    with True e show ?thesis by simp
  next
    case False
    with Cons e show ?thesis by simp
  qed
qed

lemma resolve_category_getmask:
  "resolve_category s \<noteq> 0 \<Longrightarrow> getmask s = resolve_category s"
  unfolding resolve_category_def by (rule resolve_category_in_getmask) simp_all

text \<open>
  Claim C6 says that every name other than the seven category names, bare or with the
  prefix, is mapped to 0. The code searches for \<open>FAN_\<close> anywhere in the name
  (\<open>strcasestr\<close>) and compares what follows its first occurrence, so a name with
  any text before the prefix is accepted as well: \<open>xFAN_OPEN\<close> gives the bit of
  \<open>OPEN\<close>, where the lookup of the claim gives 0. The first half of the claim
  holds (\<open>getmask_recognized\<close>, \<open>resolve_category_getmask\<close>).
\<close>

theorem getmask_embedded_prefix:
  "getmask ''xFAN_OPEN'' = FAN_OPEN \<and> FAN_OPEN \<noteq> 0 \<and> resolve_category ''xFAN_OPEN'' = 0"
  by (simp add: getmask_def resolve_category_def strcasecmp_is0_def fanmask_def tolower_Char FAN_defs)


section \<open>Parsing the mask directives\<close>

lemma directives_args_Cons:
  "directives_args (d # ds) = directive_args d @ directives_args ds"
  by (simp add: directives_args_def)

lemma directives_args_Nil: "directives_args [] = []"
  by (simp add: directives_args_def)

lemma directives_args_append:
  "directives_args (ds @ es) = directives_args ds @ directives_args es"
  by (simp add: directives_args_def)

lemma length_directive_args: "length (directive_args d) = 2"
  by (cases d) simp_all

lemma length_directives_args: "length (directives_args ds) = 2 * length ds"
  by (induction ds) (simp_all add: directives_args_Cons directives_args_Nil length_directive_args)

lemma parse_options_stop:
  "rest = [] \<or> \<not> is_directive_token (hd rest) \<Longrightarrow>
   parse_options (pre @ rest) (length pre) m = (length pre, m)"
  by (cases rest) (auto simp: parse_options.simps is_directive_token_def)

lemma parse_options_dangling_token:
  "is_directive_token t \<Longrightarrow> parse_options (pre @ [t]) (length pre) m = (Suc (length pre), m)"
  by (auto simp: parse_options.simps is_directive_token_def)

lemma parse_options_step:
  "parse_options (pre @ directive_args d @ rest) (length pre) m =
   parse_options ((pre @ directive_args d) @ rest) (length (pre @ directive_args d))
     (apply_directive m d)"
  by (cases d) (auto simp: parse_options.simps [of _ "length pre"] nth_append Let_def)

lemma parse_options_directives:
  "parse_options (pre @ directives_args ds @ rest) (length pre) m =
   parse_options ((pre @ directives_args ds) @ rest) (length pre + 2 * length ds)
     (foldl apply_directive m ds)"
proof (induction ds arbitrary: pre m)
  case Nil
  show ?case by (simp add: directives_args_Nil)
next
  case (Cons d ds)
  have "parse_options (pre @ directives_args (d # ds) @ rest) (length pre) m =
        parse_options (pre @ directive_args d @ (directives_args ds @ rest)) (length pre) m"
    by (simp add: directives_args_Cons)
  also have "\<dots> = parse_options ((pre @ directive_args d) @ directives_args ds @ rest)
        (length (pre @ directive_args d)) (apply_directive m d)"
    by (rule parse_options_step)
  also have "\<dots> = parse_options (((pre @ directive_args d) @ directives_args ds) @ rest)
        (length (pre @ directive_args d) + 2 * length ds)
        (foldl apply_directive (apply_directive m d) ds)"
    by (rule Cons.IH)
  also have "\<dots> = parse_options ((pre @ directives_args (d # ds)) @ rest)
        (length pre + 2 * length (d # ds)) (foldl apply_directive m (d # ds))"
    by (cases d) (simp_all add: directives_args_Cons)
  finally show ?case .
qed


lemma parse_options_directives_stop:
  assumes "rest = [] \<or> \<not> is_directive_token (hd rest)"
  shows "parse_options (pre @ directives_args ds @ rest) (length pre) m =
         (length pre + 2 * length ds, foldl apply_directive m ds)"
proof -
  have "parse_options ((pre @ directives_args ds) @ rest) (length (pre @ directives_args ds))
          (foldl apply_directive m ds) =
        (length (pre @ directives_args ds), foldl apply_directive m ds)"
    using assms by (rule parse_options_stop)
  then show ?thesis
    by (simp add: parse_options_directives [of pre ds rest m] length_directives_args)
qed

lemma parse_options_directives_dangling:
  assumes "is_directive_token t"
  shows "parse_options (pre @ directives_args ds @ [t]) (length pre) m =
         (Suc (length pre + 2 * length ds), foldl apply_directive m ds)"
proof -
  have "parse_options ((pre @ directives_args ds) @ [t]) (length (pre @ directives_args ds))
          (foldl apply_directive m ds) =
        (Suc (length (pre @ directives_args ds)), foldl apply_directive m ds)"
    using assms by (rule parse_options_dangling_token)
  then show ?thesis
    by (simp add: parse_options_directives [of pre ds "[t]" m] length_directives_args)
qed

lemma first_arg_directives:
  assumes "rest = [] \<or> \<not> is_directive_token (hd rest)" and "ds \<noteq> [] \<or> rest \<noteq> []"
  shows "(if (prog # directives_args ds @ rest) ! 1 = ''+e'' then 0 else initial_event_mask) =
         starting_mask ds"
proof (cases ds)
  case Nil
  with assms obtain r rs where "rest = r # rs" and "\<not> is_directive_token r"
    by (cases rest) auto
  with Nil show ?thesis
    by (auto simp: directives_args_Nil is_directive_token_def)
next
  case (Cons d ds')
  then show ?thesis
    by (cases d) (simp_all add: directives_args_Cons)
qed

lemma main_parse_directives:
  assumes "rest = [] \<or> \<not> is_directive_token (hd rest)" and "ds \<noteq> [] \<or> rest \<noteq> []"
  shows "main_parse (prog # directives_args ds @ rest) =
         (Suc (2 * length ds), foldl apply_directive (starting_mask ds) ds)"
  using parse_options_directives_stop [OF assms(1), of "[prog]" ds "starting_mask ds"]
    first_arg_directives [OF assms, of prog]
  by (simp add: main_parse_def)

lemma main_parse_dangling:
  assumes "is_directive_token t"
  shows "fst (main_parse (prog # directives_args ds @ [t])) = Suc (Suc (2 * length ds))"
  using parse_options_directives_dangling [OF assms, of "[prog]" ds]
  by (simp add: main_parse_def)

lemma add_remove_cancel:
  "apply_directive (apply_directive m (Add name)) (Remove name) AND getmask name = 0"
  by (simp add: bit_eq_iff bit_and_iff bit_or_iff bit_not_iff)


text \<open>
  Claim C4: for every sequence of Add and Remove directives, followed by arguments
  that do not start with a directive token, the mask that \<open>main\<close> computes is the
  left fold of the starting mask (zero when the first argument is \<open>+e\<close>, the default
  of all seven categories otherwise) with OR for each Add and AND-NOT for each Remove,
  in order; and after Add and then Remove of the same category the bits of that
  category are zero. It holds for every category name: a name that \<open>getmask\<close>
  maps to 0 changes nothing in either reading.
\<close>

theorem mask_is_fold_of_directives:
  "rest = [] \<or> \<not> is_directive_token (hd rest) \<Longrightarrow> ds \<noteq> [] \<or> rest \<noteq> [] \<Longrightarrow>
   snd (main_parse (prog # directives_args ds @ rest)) =
     foldl apply_directive (starting_mask ds) ds \<and>
   snd (main_parse (prog # directives_args (ds @ [Add name, Remove name]) @ rest))
     AND getmask name = 0"
proof -
  assume rest: "rest = [] \<or> \<not> is_directive_token (hd rest)" and ne: "ds \<noteq> [] \<or> rest \<noteq> []"
  have "snd (main_parse (prog # directives_args ds @ rest)) =
          foldl apply_directive (starting_mask ds) ds"
    by (simp add: main_parse_directives [OF rest ne])
  moreover have "snd (main_parse (prog # directives_args (ds @ [Add name, Remove name]) @ rest)) =
      apply_directive
        (apply_directive (foldl apply_directive (starting_mask (ds @ [Add name, Remove name])) ds)
           (Add name)) (Remove name)"
    by (simp add: main_parse_directives [OF rest])
  ultimately show ?thesis
    by (simp only: add_remove_cancel)
qed

theorem mask_is_fold_of_directives_witness:
  "\<not> is_directive_token (hd [''/tmp'']) \<and> [''/tmp''] \<noteq> [] \<and>
   snd (main_parse [''prog'', ''+e'', ''OPEN'', ''-e'', ''FAN_access'', ''+e'', ''MODIFY'', ''/tmp'']) =
     FAN_OPEN OR FAN_MODIFY \<and>
   snd (main_parse [''prog'', ''+e'', ''OPEN'', ''-e'', ''FAN_access'', ''+e'', ''MODIFY'',
                    ''+e'', ''CLOSE_WRITE'', ''-e'', ''CLOSE_WRITE'', ''/tmp''])
     AND getmask ''CLOSE_WRITE'' = 0 \<and>
   getmask ''CLOSE_WRITE'' = FAN_CLOSE_WRITE"
  using mask_is_fold_of_directives
    [of "[''/tmp'']" "[Add ''OPEN'', Remove ''FAN_access'', Add ''MODIFY'']" "''prog''"
        "''CLOSE_WRITE''"]
  by (simp add: directives_args_def is_directive_token_def getmask_names
      getmask_strcasecmp [of "''FAN_access''" "''FAN_ACCESS''"] strcasecmp_is0_def
      tolower_Char FAN_defs)

lemma main_usage:
  "length argv \<le> fst (main_parse argv) \<Longrightarrow>
   main sys argv rounds = (Exited EXIT_FAILURE, [Usage])"
  by (cases "main_parse argv") (simp add: main_def)

text \<open>
  Claim C8: when no directory is left after the directives (no argument at all, or
  only \<open>+e\<close>/\<open>-e\<close> pairs, the last of which may lack its category), the program
  prints the usage text and exits with a non-zero status, and no action of core
  initialisation has happened: the usage text is the only action.
\<close>

theorem no_directory_usage_error:
  "argv = [] \<or> argv = prog # directives_args ds \<or>
   (is_directive_token t \<and> argv = prog # directives_args ds @ [t]) \<Longrightarrow>
   main sys argv rounds = (Exited EXIT_FAILURE, [Usage]) \<and> EXIT_FAILURE \<noteq> 0 \<and>
   \<not> list_ex is_init_action (snd (main sys argv rounds))"
proof -
  assume "argv = [] \<or> argv = prog # directives_args ds \<or>
   (is_directive_token t \<and> argv = prog # directives_args ds @ [t])"
  then consider (none) "argv = []" | (pairs) "argv = prog # directives_args ds"
    | (dangling) "is_directive_token t" "argv = prog # directives_args ds @ [t]"
    by blast
  then have "main sys argv rounds = (Exited EXIT_FAILURE, [Usage])"
  proof cases
    case none
    then show ?thesis by (simp add: main_def)
  next
    case pairs
    show ?thesis
    proof (cases "ds = []")
      case True
      with pairs show ?thesis by (simp add: main_def directives_args_Nil)
    next
      case False
      then have "main_parse (prog # directives_args ds @ []) =
          (Suc (2 * length ds), foldl apply_directive (starting_mask ds) ds)"
        by (intro main_parse_directives) simp_all
      with pairs show ?thesis
        by (intro main_usage) (simp add: length_directives_args)
    qed
  next
    case dangling
    from dangling(1) have "fst (main_parse (prog # directives_args ds @ [t])) =
        Suc (Suc (2 * length ds))"
      by (rule main_parse_dangling)
    with dangling(2) show ?thesis
      by (intro main_usage) (simp add: length_directives_args)
  qed
  then show ?thesis
    by (simp add: EXIT_FAILURE_def)
qed

theorem no_directory_usage_error_witness:
  "main example_os [] [] = (Exited EXIT_FAILURE, [Usage]) \<and>
   main example_os [''prog''] [] = (Exited EXIT_FAILURE, [Usage]) \<and>
   main example_os [''prog'', ''+e'', ''OPEN'', ''-e'', ''nonsense''] [] =
     (Exited EXIT_FAILURE, [Usage]) \<and>
   is_directive_token ''-e'' \<and>
   main example_os [''prog'', ''+e'', ''OPEN'', ''-e''] [] = (Exited EXIT_FAILURE, [Usage]) \<and>
   EXIT_FAILURE \<noteq> 0"
  using no_directory_usage_error [of "[]" "''prog''" "[]" "''-e''" example_os "[]"]
    no_directory_usage_error [of "[''prog'']" "''prog''" "[]" "''-e''" example_os "[]"]
    no_directory_usage_error
      [of "[''prog'', ''+e'', ''OPEN'', ''-e'', ''nonsense'']" "''prog''"
          "[Add ''OPEN'', Remove ''nonsense'']" "''-e''" example_os "[]"]
    no_directory_usage_error
      [of "[''prog'', ''+e'', ''OPEN'', ''-e'']" "''prog''" "[Add ''OPEN'']" "''-e''"
          example_os "[]"]
  by (simp add: directives_args_def is_directive_token_def)

section \<open>Decoding\<close>

lemma cast_metadata_take:
  "cast_metadata (take FAN_EVENT_METADATA_LEN r) = cast_metadata r"
  by (simp add: cast_metadata_def FAN_EVENT_METADATA_LEN_def drop_take)

lemma get_metadata_at:
  "FAN_EVENT_METADATA_LEN \<le> length r \<Longrightarrow>
   get_metadata (pre @ r @ post) (length pre) = Some (cast_metadata r)"
proof -
  assume len: "FAN_EVENT_METADATA_LEN \<le> length r"
  then have "take FAN_EVENT_METADATA_LEN (drop (length pre) (pre @ r @ post)) =
        take FAN_EVENT_METADATA_LEN r"
    by simp
  with len show ?thesis
    by (simp add: get_metadata_def cast_metadata_take)
qed

lemma fan_event_loop_stops:
  assumes "t = [] \<or> truncated_record t"
  shows "fan_event_loop f (pre @ t) (length pre) (int (length t)) = Inr []"
proof (cases "length t < FAN_EVENT_METADATA_LEN")
  case True
  then show ?thesis
    by (simp add: fan_event_loop.simps)
next
  case False
  with assms have decl: "length t < declared_length t"
    by (auto simp: truncated_record_def FAN_EVENT_METADATA_LEN_def)
  have u: "uint (meta_event_len (cast_metadata t)) = int (declared_length t)"
    unfolding declared_length_def by (rule uint_nat)
  from False have "get_metadata (pre @ t @ []) (length pre) = Some (cast_metadata t)"
    by (intro get_metadata_at) simp
  then have meta: "get_metadata (pre @ t) (length pre) = Some (cast_metadata t)"
    by simp
  from False decl show ?thesis
    by (subst fan_event_loop.simps) (simp add: meta u)
qed

lemma fan_event_loop_records:
  assumes "t = [] \<or> truncated_record t"
  shows "list_all well_formed_record rs \<Longrightarrow>
         fan_event_loop f (pre @ concat rs @ t) (length pre) (int (length (concat rs @ t))) =
           Inr (concat (map (\<lambda>r. f (cast_metadata r)) rs))"
proof (induction rs arbitrary: pre)
  case Nil
  from assms show ?case
    by (simp add: fan_event_loop_stops)
next
  case (Cons r rs)
  from Cons.prems have r: "well_formed_record r" and rest: "list_all well_formed_record rs"
    by simp_all
  from r have wf: "FAN_EVENT_METADATA_LEN \<le> length r"
    and decl: "declared_length r = length r"
    by (simp_all add: well_formed_record_def)
  have u: "uint (meta_event_len (cast_metadata r)) = int (declared_length r)"
    unfolding declared_length_def by (rule uint_nat)
  have n: "unat (meta_event_len (cast_metadata r)) = declared_length r"
    by (simp add: declared_length_def)
  have meta: "get_metadata (pre @ r @ (concat rs @ t)) (length pre) = Some (cast_metadata r)"
    using wf by (rule get_metadata_at)
  have ih: "fan_event_loop f ((pre @ r) @ concat rs @ t) (length (pre @ r))
              (int (length (concat rs @ t))) =
            Inr (concat (map (\<lambda>r. f (cast_metadata r)) rs))"
    using rest by (rule Cons.IH)
  have "fan_event_loop f (pre @ r @ concat rs @ t) (length pre)
          (int (length r) + int (length (concat rs @ t))) =
        Inr (f (cast_metadata r) @ concat (map (\<lambda>r. f (cast_metadata r)) rs))"
    using wf decl ih
    by (subst fan_event_loop.simps) (simp add: meta u n)
  then show ?case
    by simp
qed

text \<open>
  For any bytes whatever the loop stays inside them: with \<open>off + len\<close> the number
  of bytes returned, no header is read outside them.
\<close>

lemma get_metadata_in_bounds:
  "off + FAN_EVENT_METADATA_LEN \<le> length buffer \<Longrightarrow> \<exists>m. get_metadata buffer off = Some m"
  by (simp add: get_metadata_def)

lemma fan_event_loop_in_bounds:
  "0 \<le> len \<Longrightarrow> off + nat len = length buffer \<Longrightarrow>
   \<exists>t. fan_event_loop f buffer off len = Inr t"
proof (induction f buffer off len rule: fan_event_loop.induct)
  case (1 f buffer off len)
  note step = fan_event_loop.simps [of f buffer off len]
  show ?case
  proof (cases "len < int FAN_EVENT_METADATA_LEN")
    case True
    with step show ?thesis
      by simp
  next
    case False
    with "1.prems" have "off + FAN_EVENT_METADATA_LEN \<le> length buffer"
      by linarith
    then obtain metadata where meta: "get_metadata buffer off = Some metadata"
      using get_metadata_in_bounds by blast
    let ?n = "meta_event_len metadata"
    show ?thesis
    proof (cases "int FAN_EVENT_METADATA_LEN \<le> uint ?n \<and> uint ?n \<le> len")
      case ok: True
      have u: "uint ?n = int (unat ?n)"
        by (rule uint_nat)
      from ok have "0 \<le> len - uint ?n"
        by simp
      moreover from ok "1.prems" have "off + unat ?n + nat (len - uint ?n) = length buffer"
        unfolding u by linarith
      ultimately obtain rest
        where "fan_event_loop f buffer (off + unat ?n) (len - uint ?n) = Inr rest"
        using "1.IH" [OF False meta ok] by blast
      with False meta ok step show ?thesis
        by simp
    next
      case False
      with \<open>\<not> len < int FAN_EVENT_METADATA_LEN\<close> meta step show ?thesis
        by simp
    qed
  qed
qed

lemma decode_in_bounds: "\<exists>records. decode buffer = Inr records"
  unfolding decode_def by (rule fan_event_loop_in_bounds) simp_all

lemma read_fanotify_events_in_bounds: "\<exists>t. read_fanotify_events sys r = Inr t"
proof (cases r)
  case Read_error
  then show ?thesis
    by (simp add: read_fanotify_events_def)
next
  case (Read_bytes bytes)
  have "\<exists>t. fan_event_loop (main_event_body sys) (take FANOTIFY_BUFFER_SIZE bytes) 0
          (int (length (take FANOTIFY_BUFFER_SIZE bytes))) = Inr t"
    by (rule fan_event_loop_in_bounds) simp_all
  with Read_bytes show ?thesis
    by (auto simp: read_fanotify_events_def Let_def)
qed


text \<open>
  Claim C3: a buffer of well-formed records back to back (each declares a length of
  at least the header size that is the number of its bytes) is decoded into exactly
  these records, in order; when a truncated record follows them (its header does not
  fit in the bytes left, or it declares more bytes than are left), decoding gives
  exactly the complete records before it and no partial record. The result is never
  the fault \<open>Out_of_bounds\<close>, so no byte outside those returned by the read is
  looked at. The same holds for the loop in \<open>main\<close> with its body, for a buffer of
  at most \<open>FANOTIFY_BUFFER_SIZE\<close> bytes.
\<close>

theorem decode_records:
  "list_all well_formed_record rs \<Longrightarrow> t = [] \<or> truncated_record t \<Longrightarrow>
   decode (concat rs @ t) = Inr (map cast_metadata rs) \<and>
   (concat rs @ t \<noteq> [] \<and> length (concat rs @ t) \<le> FANOTIFY_BUFFER_SIZE \<longrightarrow>
    read_fanotify_events sys (Read_bytes (concat rs @ t)) =
      Inr (concat (map (\<lambda>r. main_event_body sys (cast_metadata r)) rs)))"
proof -
  assume wf: "list_all well_formed_record rs" and t: "t = [] \<or> truncated_record t"
  have loop: "fan_event_loop f (concat rs @ t) 0 (int (length (concat rs @ t))) =
      Inr (concat (map (\<lambda>r. f (cast_metadata r)) rs))" for f :: "fanotify_event_metadata \<Rightarrow> 'b list"
    using fan_event_loop_records [OF t wf, of f "[]"] by simp
  have "decode (concat rs @ t) = Inr (map cast_metadata rs)"
    using loop [of "\<lambda>metadata. [metadata]"] by (simp add: decode_def)
  moreover have "read_fanotify_events sys (Read_bytes (concat rs @ t)) =
      Inr (concat (map (\<lambda>r. main_event_body sys (cast_metadata r)) rs))"
    if "concat rs @ t \<noteq> []" "length (concat rs @ t) \<le> FANOTIFY_BUFFER_SIZE"
    using that loop [of "main_event_body sys"] by (simp add: read_fanotify_events_def)
  ultimately show ?thesis
    by blast
qed


lemma example_records_well_formed:
  "well_formed_record example_record" "well_formed_record example_record_nofd"
  by (simp_all add: well_formed_record_def declared_length_def cast_metadata_def
      example_record_def example_record_nofd_def FAN_EVENT_METADATA_LEN_def)

lemma example_records_cast:
  "cast_metadata example_record =
     \<lparr>meta_event_len = 24, meta_mask = 32, meta_fd = 5, meta_pid = 100\<rparr>"
  "cast_metadata example_record_nofd =
     \<lparr>meta_event_len = 24, meta_mask = 1, meta_fd = - 1, meta_pid = 7\<rparr>"
  by (simp_all add: cast_metadata_def example_record_def example_record_nofd_def)

theorem decode_records_witness:
  "list_all well_formed_record [example_record, example_record_nofd] \<and>
   decode (example_record @ example_record_nofd) =
     Inr [\<lparr>meta_event_len = 24, meta_mask = 32, meta_fd = 5, meta_pid = 100\<rparr>,
          \<lparr>meta_event_len = 24, meta_mask = 1, meta_fd = - 1, meta_pid = 7\<rparr>] \<and>
   truncated_record example_record_cut \<and>
   declared_length example_record_cut = 48 \<and> length example_record_cut = 24 \<and>
   decode (example_record @ example_record_nofd @ example_record_cut) =
     Inr [\<lparr>meta_event_len = 24, meta_mask = 32, meta_fd = 5, meta_pid = 100\<rparr>,
          \<lparr>meta_event_len = 24, meta_mask = 1, meta_fd = - 1, meta_pid = 7\<rparr>] \<and>
   truncated_record (take 23 example_record) \<and>
   decode (example_record @ example_record_nofd @ take 23 example_record) =
     Inr [\<lparr>meta_event_len = 24, meta_mask = 32, meta_fd = 5, meta_pid = 100\<rparr>,
          \<lparr>meta_event_len = 24, meta_mask = 1, meta_fd = - 1, meta_pid = 7\<rparr>] \<and>
   example_record @ example_record_nofd @ example_record_cut \<noteq> [] \<and>
   length (example_record @ example_record_nofd @ example_record_cut) \<le>
     FANOTIFY_BUFFER_SIZE \<and>
   read_fanotify_events example_os
     (Read_bytes (example_record @ example_record_nofd @ example_record_cut)) =
     Inr (main_event_body example_os
            \<lparr>meta_event_len = 24, meta_mask = 32, meta_fd = 5, meta_pid = 100\<rparr> @
          main_event_body example_os
            \<lparr>meta_event_len = 24, meta_mask = 1, meta_fd = - 1, meta_pid = 7\<rparr>)"
proof -
  have wf: "list_all well_formed_record [example_record, example_record_nofd]"
    by (simp add: example_records_well_formed)
  have cut: "truncated_record example_record_cut"
    "declared_length example_record_cut = 48" "length example_record_cut = 24"
    by (simp_all add: truncated_record_def declared_length_def cast_metadata_def
        example_record_cut_def FAN_EVENT_METADATA_LEN_def)
  have short: "truncated_record (take 23 example_record)"
    by (simp add: truncated_record_def example_record_def FAN_EVENT_METADATA_LEN_def)
  have d0: "decode (example_record @ example_record_nofd) =
      Inr [cast_metadata example_record, cast_metadata example_record_nofd]"
    using decode_records [OF wf, of "[]" example_os] by simp
  have d1: "decode (example_record @ example_record_nofd @ example_record_cut) =
      Inr [cast_metadata example_record, cast_metadata example_record_nofd]"
    using decode_records [OF wf, of example_record_cut example_os] cut(1) by simp
  have d2: "decode (example_record @ example_record_nofd @ take 23 example_record) =
      Inr [cast_metadata example_record, cast_metadata example_record_nofd]"
    using decode_records [OF wf, of "take 23 example_record" example_os] short by simp
  have ne: "example_record @ example_record_nofd @ example_record_cut \<noteq> []"
    by (simp add: example_record_def)
  have len: "length (example_record @ example_record_nofd @ example_record_cut) \<le>
      FANOTIFY_BUFFER_SIZE"
    by (simp add: example_record_def example_record_nofd_def example_record_cut_def
        FANOTIFY_BUFFER_SIZE_def)
  have r1: "read_fanotify_events example_os
      (Read_bytes (example_record @ example_record_nofd @ example_record_cut)) =
      Inr (main_event_body example_os (cast_metadata example_record) @
           main_event_body example_os (cast_metadata example_record_nofd))"
    using decode_records [OF wf, of example_record_cut example_os] cut(1) ne len by simp
  from wf cut short d0 d1 d2 ne len r1 show ?thesis
    unfolding example_records_cast by blast
qed

section \<open>The event loop only reads and reports\<close>

lemma marks_added_append: "marks_added (a @ b) = marks_added a @ marks_added b"
  by (induction a rule: marks_added.induct) simp_all

lemma marks_removed_append: "marks_removed (a @ b) = marks_removed a @ marks_removed b"
  by (induction a rule: marks_removed.induct) simp_all

lemma paths_freed_append: "paths_freed (a @ b) = paths_freed a @ paths_freed b"
  by (induction a rule: paths_freed.induct) simp_all

lemmas trace_append = marks_added_append marks_removed_append paths_freed_append

lemma no_watch_actions_append:
  "no_watch_actions (a @ b) = (no_watch_actions a \<and> no_watch_actions b)"
  by (auto simp: no_watch_actions_def trace_append)

lemma get_file_path_from_fd_no_watch:
  "get_file_path_from_fd sys fd n = (r, t) \<Longrightarrow> no_watch_actions t"
  by (auto simp: get_file_path_from_fd_def no_watch_actions_def
      split: if_splits option.splits)

lemma get_program_cmdline_from_pid_no_watch:
  "get_program_cmdline_from_pid sys pid n = (r, t) \<Longrightarrow> no_watch_actions t"
  by (auto simp: get_program_cmdline_from_pid_def no_watch_actions_def Let_def
      split: if_splits proc_file.splits)

lemma event_process_no_watch: "no_watch_actions (event_process sys m)"
proof -
  obtain p t1 where p: "get_file_path_from_fd sys (sint (meta_fd m)) PATH_MAX = (p, t1)"
    by (cases "get_file_path_from_fd sys (sint (meta_fd m)) PATH_MAX")
  obtain c t2 where c: "get_program_cmdline_from_pid sys (sint (meta_pid m)) PATH_MAX = (c, t2)"
    by (cases "get_program_cmdline_from_pid sys (sint (meta_pid m)) PATH_MAX")
  from p have "no_watch_actions t1" by (rule get_file_path_from_fd_no_watch)
  moreover from c have "no_watch_actions t2" by (rule get_program_cmdline_from_pid_no_watch)
  ultimately show ?thesis
    by (simp add: event_process_def p c Let_def no_watch_actions_def trace_append)
qed

lemma main_event_body_no_watch: "no_watch_actions (main_event_body sys m)"
  using event_process_no_watch [of sys m]
  by (simp add: main_event_body_def no_watch_actions_def trace_append)


lemma fan_event_loop_no_watch:
  "(\<And>m. no_watch_actions (f m)) \<Longrightarrow> fan_event_loop f buffer off len = Inr t \<Longrightarrow>
   no_watch_actions t"
proof (induction f buffer off len arbitrary: t rule: fan_event_loop.induct)
  case (1 f buffer off len)
  note step = fan_event_loop.simps [of f buffer off len]
  have eq: "fan_event_loop f buffer off len = Inr t"
    by fact
  show ?case
  proof (cases "len < int FAN_EVENT_METADATA_LEN")
    case True
    with step eq have "t = []"
      by simp
    then show ?thesis
      by (simp add: no_watch_actions_def)
  next
    case False
    show ?thesis
    proof (cases "get_metadata buffer off")
      case None
      with False step eq show ?thesis
        by simp
    next
      case (Some metadata)
      show ?thesis
      proof (cases "int FAN_EVENT_METADATA_LEN \<le> uint (meta_event_len metadata) \<and>
                    uint (meta_event_len metadata) \<le> len")
        case ok: True
        let ?next = "fan_event_loop f buffer (off + unat (meta_event_len metadata))
                       (len - uint (meta_event_len metadata))"
        from False Some ok step eq
        have unfolded: "(case ?next of Inl e \<Rightarrow> Inl e | Inr rest \<Rightarrow> Inr (f metadata @ rest)) = Inr t"
          by simp
        then obtain rest where rest: "?next = Inr rest" and t: "t = f metadata @ rest"
          by (cases ?next) simp_all
        have "no_watch_actions rest"
          using False Some ok "1.prems"(1) rest by (rule "1.IH")
        with t "1.prems"(1) show ?thesis
          by (simp add: no_watch_actions_append)
      next
        case stop: False
        with False Some step eq have "t = []"
          by simp
        then show ?thesis
          by (simp add: no_watch_actions_def)
      qed
    qed
  qed
qed

lemma read_fanotify_events_no_watch:
  "read_fanotify_events sys rr = Inr t \<Longrightarrow> no_watch_actions t"
proof (cases rr)
  case Read_error
  moreover assume "read_fanotify_events sys rr = Inr t"
  ultimately show ?thesis
    by (simp add: read_fanotify_events_def no_watch_actions_def)
next
  case (Read_bytes bytes)
  assume t: "read_fanotify_events sys rr = Inr t"
  show ?thesis
  proof (cases "take FANOTIFY_BUFFER_SIZE bytes = []")
    case True
    with t Read_bytes show ?thesis
      by (simp add: read_fanotify_events_def no_watch_actions_def)
  next
    case False
    with t Read_bytes have "fan_event_loop (main_event_body sys)
        (take FANOTIFY_BUFFER_SIZE bytes) 0 (int (length (take FANOTIFY_BUFFER_SIZE bytes))) =
        Inr t"
      by (simp add: read_fanotify_events_def Let_def)
    with main_event_body_no_watch show ?thesis
      by (rule fan_event_loop_no_watch)
  qed
qed



lemma main_loop_no_watch:
  "main_loop sys rounds = (res, t) \<Longrightarrow> no_watch_actions t"
proof (induction rounds arbitrary: res t)
  case Nil
  then show ?case by (simp add: no_watch_actions_def)
next
  case (Cons r rounds)
  let ?t1 = "if sig_pollin r then [Stderr Err_unexpected_signal] else []"
  have t1: "no_watch_actions ?t1"
    by (simp add: no_watch_actions_def)
  show ?case
  proof (cases "poll_ret r < 0 \<or> (sig_pollin r \<and> sig_read_ret r \<noteq> SIGINFO_SIZE) \<or>
                (sig_pollin r \<and> (ssi_signo r = SIGINT \<or> ssi_signo r = SIGTERM))")
    case True
    then consider "poll_ret r < 0"
      | "\<not> poll_ret r < 0" "sig_pollin r \<and> sig_read_ret r \<noteq> SIGINFO_SIZE"
      | "\<not> poll_ret r < 0" "\<not> (sig_pollin r \<and> sig_read_ret r \<noteq> SIGINFO_SIZE)"
        "sig_pollin r \<and> (ssi_signo r = SIGINT \<or> ssi_signo r = SIGTERM)"
      by blast
    then show ?thesis
    proof cases
      case 1
      with Cons.prems have "t = [Stderr Err_poll]" by simp
      then show ?thesis by (simp add: no_watch_actions_def)
    next
      case 2
      with Cons.prems have "t = [Stderr Err_read_signal]" by simp
      then show ?thesis by (simp add: no_watch_actions_def)
    next
      case 3
      with Cons.prems have "t = []" by simp
      then show ?thesis by (simp add: no_watch_actions_def)
    qed
  next
    case False
    then have step: "main_loop sys (r # rounds) =
        (case (if fan_pollin r then read_fanotify_events sys (fan_read r) else Inr []) of
           Inl e \<Rightarrow> (Loop_fault, ?t1)
         | Inr t2 \<Rightarrow> (case main_loop sys rounds of (res, t3) \<Rightarrow> (res, ?t1 @ t2 @ t3)))"
      by (simp add: Let_def)
    obtain res' t3 where rec: "main_loop sys rounds = (res', t3)"
      by (cases "main_loop sys rounds")
    then have t3: "no_watch_actions t3"
      by (rule Cons.IH)
    show ?thesis
    proof (cases "if fan_pollin r then read_fanotify_events sys (fan_read r) else Inr []")
      case (Inl e)
      with step Cons.prems have "t = ?t1" by simp
      with t1 show ?thesis by simp
    next
      case (Inr t2)
      have "no_watch_actions t2"
      proof (cases "fan_pollin r")
        case True
        with Inr show ?thesis by (simp add: read_fanotify_events_no_watch)
      next
        case False
        with Inr show ?thesis by (simp add: no_watch_actions_def)
      qed
      moreover from step Cons.prems Inr rec have "t = ?t1 @ t2 @ t3" by simp
      ultimately show ?thesis
        using t1 t3 by (simp only: no_watch_actions_append)
    qed
  qed
qed


lemma main_loop_never_faults: "fst (main_loop sys rounds) \<noteq> Loop_fault"
proof (induction rounds)
  case Nil
  show ?case by simp
next
  case (Cons r rounds)
  obtain t2 where t2: "read_fanotify_events sys (fan_read r) = Inr t2"
    using read_fanotify_events_in_bounds by blast
  with Cons show ?case
    by (cases "main_loop sys rounds") (simp add: Let_def)
qed

section \<open>Start-up, shutdown and the run of \<open>main\<close>\<close>

lemma add_marks_succeeds:
  "list_all (\<lambda>path. 0 \<le> fanotify_mark_add_ret sys path) paths \<Longrightarrow>
   fst (add_marks sys m paths) \<and>
   marks_added (snd (add_marks sys m paths)) = map (Pair m) paths \<and>
   marks_removed (snd (add_marks sys m paths)) = [] \<and>
   paths_freed (snd (add_marks sys m paths)) = []"
  by (induction paths) (auto split: prod.splits)

lemma shutdown_fanotify_trace:
  "marks_removed (shutdown_fanotify m monitors fd) = map (Pair m) monitors \<and>
   paths_freed (shutdown_fanotify m monitors fd) = monitors \<and>
   marks_added (shutdown_fanotify m monitors fd) = []"
  by (induction monitors) (simp_all add: shutdown_fanotify_def trace_append)

lemma parse_options_index: "i \<le> fst (parse_options argv i m)"
proof (induction argv i m rule: parse_options.induct)
  case (1 argv i event_mask)
  note step = parse_options.simps [of argv i event_mask]
  show ?case
  proof (cases "i < length argv \<and> Suc i < length argv \<and> (argv ! i = ''+e'' \<or> argv ! i = ''-e'')")
    case False
    with step show ?thesis
      by (auto split: if_splits)
  next
    case True
    show ?thesis
    proof (cases "argv ! i = ''+e''")
      case plus: True
      with True "1.IH"(1) [OF _ plus _ refl] step show ?thesis
        by (simp add: Let_def)
    next
      case minus: False
      with True have m: "argv ! i = ''-e''" by simp
      with True minus "1.IH"(2) [OF _ minus m _ refl] step show ?thesis
        by (simp add: Let_def)
    qed
  qed
qed

lemma main_parse_index: "1 \<le> fst (main_parse argv)"
  using parse_options_index [of 1 argv] by (simp add: main_parse_def)

lemma main_loop_append:
  "main_loop sys before = (Loop_waiting, t) \<Longrightarrow>
   main_loop sys (before @ rounds) =
     (case main_loop sys rounds of (res, t') \<Rightarrow> (res, t @ t'))"
proof (induction before arbitrary: t)
  case Nil
  then show ?case by (simp split: prod.splits)
next
  case (Cons r before)
  let ?t1 = "if sig_pollin r then [Stderr Err_unexpected_signal] else []"
  from Cons.prems have cont: "\<not> poll_ret r < 0"
    "\<not> (sig_pollin r \<and> sig_read_ret r \<noteq> SIGINFO_SIZE)"
    "\<not> (sig_pollin r \<and> (ssi_signo r = SIGINT \<or> ssi_signo r = SIGTERM))"
    by (auto split: if_splits)
  then have step: "main_loop sys (r # rs) =
      (case (if fan_pollin r then read_fanotify_events sys (fan_read r) else Inr []) of
         Inl e \<Rightarrow> (Loop_fault, ?t1)
       | Inr t2 \<Rightarrow> (case main_loop sys rs of (res, t3) \<Rightarrow> (res, ?t1 @ t2 @ t3)))" for rs
    by (simp add: Let_def)
  from Cons.prems step [of before] obtain t2 t3
    where t2: "(if fan_pollin r then read_fanotify_events sys (fan_read r) else Inr []) = Inr t2"
      and t3: "main_loop sys before = (Loop_waiting, t3)"
      and t: "t = ?t1 @ t2 @ t3"
    by (cases "if fan_pollin r then read_fanotify_events sys (fan_read r) else Inr []";
        cases "main_loop sys before") simp_all
  from t3 have "main_loop sys (before @ rounds) =
      (case main_loop sys rounds of (res, t') \<Rightarrow> (res, t3 @ t'))"
    by (rule Cons.IH)
  with step [of "before @ rounds"] t2 t show ?case
    by (simp split: prod.splits)
qed

lemma main_loop_termination_round:
  "termination_round r \<Longrightarrow> main_loop sys (r # rounds) = (Loop_break, [])"
  by (simp add: termination_round_def)


lemma initialize_signals_succeeds:
  "0 \<le> sigprocmask_ret sys \<Longrightarrow> 0 \<le> signalfd_ret sys \<Longrightarrow>
   initialize_signals sys = (signalfd_ret sys, [Sys_sigprocmask, Sys_signalfd])"
  by (simp add: initialize_signals_def)

lemma initialize_fanotify_succeeds:
  assumes "0 \<le> fanotify_init_ret sys"
    and "list_all (\<lambda>path. 0 \<le> fanotify_mark_add_ret sys path) (drop 1 args)"
  shows "initialize_fanotify sys m args =
         (fanotify_init_ret sys, drop 1 args,
          Sys_fanotify_init # snd (add_marks sys m (drop 1 args)))"
proof -
  obtain ok t where am: "add_marks sys m (drop 1 args) = (ok, t)"
    by (cases "add_marks sys m (drop 1 args)")
  with add_marks_succeeds [OF assms(2), of m] have "ok"
    by simp
  with assms(1) am show ?thesis
    by (simp add: initialize_fanotify_def)
qed

lemma main_after_startup:
  assumes "2 \<le> length argv" and "main_parse argv = (i, event_mask)" and "i < length argv"
    and "startup_succeeds sys (drop i argv)"
  shows "main sys argv rounds =
     (case main_loop sys rounds of
        (Loop_break, t3) \<Rightarrow>
          (Exited EXIT_SUCCESS,
           [Sys_sigprocmask, Sys_signalfd] @
           (Sys_fanotify_init # snd (add_marks sys event_mask (drop i argv))) @ t3 @
           shutdown_fanotify event_mask (drop i argv) (fanotify_init_ret sys) @
           shutdown_signals (signalfd_ret sys) @ [Exiting])
      | (Loop_exit status, t3) \<Rightarrow>
          (Exited status,
           [Sys_sigprocmask, Sys_signalfd] @
           (Sys_fanotify_init # snd (add_marks sys event_mask (drop i argv))) @ t3)
      | (Loop_waiting, t3) \<Rightarrow>
          (Waiting,
           [Sys_sigprocmask, Sys_signalfd] @
           (Sys_fanotify_init # snd (add_marks sys event_mask (drop i argv))) @ t3)
      | (Loop_fault, t3) \<Rightarrow>
          (Fault,
           [Sys_sigprocmask, Sys_signalfd] @
           (Sys_fanotify_init # snd (add_marks sys event_mask (drop i argv))) @ t3))"
proof -
  from assms(2) main_parse_index [of argv] have "1 \<le> i"
    by simp
  then have paths: "drop 1 (drop (i - 1) argv) = drop i argv"
    by simp
  from assms(4) have sig: "initialize_signals sys = (signalfd_ret sys, [Sys_sigprocmask, Sys_signalfd])"
    by (simp add: startup_succeeds_def initialize_signals_succeeds)
  from assms(4) have "initialize_fanotify sys event_mask (drop (i - 1) argv) =
      (fanotify_init_ret sys, drop 1 (drop (i - 1) argv),
       Sys_fanotify_init # snd (add_marks sys event_mask (drop 1 (drop (i - 1) argv))))"
    by (intro initialize_fanotify_succeeds) (simp_all only: paths startup_succeeds_def)
  then have fan: "initialize_fanotify sys event_mask (drop (i - 1) argv) =
      (fanotify_init_ret sys, drop i argv,
       Sys_fanotify_init # snd (add_marks sys event_mask (drop i argv)))"
    by (simp only: paths)
  from assms(4) have ok: "\<not> signalfd_ret sys < 0" "\<not> fanotify_init_ret sys < 0"
    by (simp_all add: startup_succeeds_def)
  from assms(1,3) have "\<not> length argv < 2" "\<not> length argv \<le> i"
    by simp_all
  then show ?thesis
    unfolding main_def by (simp only: assms(2) sig fan ok if_False prod.case)
qed


text \<open>
  Claim C5: when start-up has succeeded and the program is still in its loop after the
  rounds \<open>before\<close>, a round that delivers \<open>SIGINT\<close> or \<open>SIGTERM\<close> ends the
  program with success, whatever is pending on the notification channel in that
  round and whatever rounds would follow. In the whole run the removal of a mark is
  attempted exactly once for every registered path, in order, with the mask that was
  used to add it, and every path is freed exactly once. The result of a removal is not
  looked at by \<open>shutdown_fanotify\<close>.
\<close>

theorem termination_signal_teardown:
  "2 \<le> length argv \<Longrightarrow> main_parse argv = (i, event_mask) \<Longrightarrow> i < length argv \<Longrightarrow>
   startup_succeeds sys (drop i argv) \<Longrightarrow>
   main_loop sys before = (Loop_waiting, t) \<Longrightarrow> termination_round r \<Longrightarrow>
   fst (main sys argv (before @ r # later)) = Exited EXIT_SUCCESS \<and>
   marks_removed (snd (main sys argv (before @ r # later))) =
     map (Pair event_mask) (drop i argv) \<and>
   marks_added (snd (main sys argv (before @ r # later))) =
     map (Pair event_mask) (drop i argv) \<and>
   paths_freed (snd (main sys argv (before @ r # later))) = drop i argv"
proof -
  assume argv: "2 \<le> length argv" "main_parse argv = (i, event_mask)" "i < length argv"
    and startup: "startup_succeeds sys (drop i argv)"
    and before: "main_loop sys before = (Loop_waiting, t)"
    and r: "termination_round r"
  from r have "main_loop sys (r # later) = (Loop_break, [])"
    by (rule main_loop_termination_round)
  with main_loop_append [OF before, of "r # later"]
  have loop: "main_loop sys (before @ r # later) = (Loop_break, t)"
    by simp
  from before have t: "marks_added t = []" "marks_removed t = []" "paths_freed t = []"
    by (auto dest: main_loop_no_watch simp: no_watch_actions_def)
  from startup have marks: "list_all (\<lambda>path. 0 \<le> fanotify_mark_add_ret sys path) (drop i argv)"
    by (simp add: startup_succeeds_def)
  note added = add_marks_succeeds [OF marks, of event_mask]
  note removed = shutdown_fanotify_trace [of event_mask "drop i argv" "fanotify_init_ret sys"]
  have "main sys argv (before @ r # later) =
      (Exited EXIT_SUCCESS,
       [Sys_sigprocmask, Sys_signalfd] @
       (Sys_fanotify_init # snd (add_marks sys event_mask (drop i argv))) @ t @
       shutdown_fanotify event_mask (drop i argv) (fanotify_init_ret sys) @
       shutdown_signals (signalfd_ret sys) @ [Exiting])"
    by (simp add: main_after_startup [OF argv startup] loop)
  then show ?thesis
    using t added removed
    by (simp add: trace_append shutdown_signals_def)
qed


lemma example_parse:
  "main_parse [''prog'', ''-e'', ''OPEN'', ''/tmp'', ''/var''] =
     (3, initial_event_mask AND NOT FAN_OPEN)"
  by (simp add: main_parse_def parse_options.simps getmask_names FAN_OPEN_def)

lemma example_parse_plain: "main_parse [''prog'', ''/tmp''] = (1, initial_event_mask)"
  by (simp add: main_parse_def parse_options.simps)

lemma example_loop_event:
  "main_loop example_os [round_event] =
     (Loop_waiting,
      [Sys_readlink 5, Report_event 100 ''/tmp/f'', Report_mask 100 [''FAN_OPEN ''],
       Sys_open_cmdline 100, Sys_read_cmdline 100, Sys_close_cmdline 100,
       Report_cmdline 100 ''ls -l '', Sys_close 5, Sys_close 5])"
  by (simp add: round_event_def round_idle_def example_read)

theorem termination_signal_teardown_witness:
  "main_parse [''prog'', ''-e'', ''OPEN'', ''/tmp'', ''/var''] =
     (3, initial_event_mask AND NOT FAN_OPEN) \<and>
   startup_succeeds example_os [''/tmp'', ''/var''] \<and>
   fst (main_loop example_os [round_event]) = Loop_waiting \<and>
   termination_round round_sigterm \<and>
   fan_pollin round_sigterm \<and>
   fst (main example_os [''prog'', ''-e'', ''OPEN'', ''/tmp'', ''/var'']
          [round_event, round_sigterm, round_event]) = Exited EXIT_SUCCESS \<and>
   marks_removed
     (snd (main example_os [''prog'', ''-e'', ''OPEN'', ''/tmp'', ''/var'']
             [round_event, round_sigterm, round_event])) =
     [(initial_event_mask AND NOT FAN_OPEN, ''/tmp''),
      (initial_event_mask AND NOT FAN_OPEN, ''/var'')] \<and>
   marks_added
     (snd (main example_os [''prog'', ''-e'', ''OPEN'', ''/tmp'', ''/var'']
             [round_event, round_sigterm, round_event])) =
     [(initial_event_mask AND NOT FAN_OPEN, ''/tmp''),
      (initial_event_mask AND NOT FAN_OPEN, ''/var'')] \<and>
   paths_freed
     (snd (main example_os [''prog'', ''-e'', ''OPEN'', ''/tmp'', ''/var'']
             [round_event, round_sigterm, round_event])) = [''/tmp'', ''/var'']"
proof -
  have paths: "drop 3 [''prog'', ''-e'', ''OPEN'', ''/tmp'', ''/var''] = [''/tmp'', ''/var'']"
    by simp
  have rounds: "[round_event] @ round_sigterm # [round_event] =
      [round_event, round_sigterm, round_event]"
    by simp
  have startup: "startup_succeeds example_os [''/tmp'', ''/var'']"
    by (simp add: startup_succeeds_def example_os_def)
  then have startup': "startup_succeeds example_os
      (drop 3 [''prog'', ''-e'', ''OPEN'', ''/tmp'', ''/var''])"
    by (simp only: paths)
  have waiting: "fst (main_loop example_os [round_event]) = Loop_waiting"
    by (simp only: example_loop_event fst_conv)
  have r: "termination_round round_sigterm"
    by (simp add: termination_round_def round_sigterm_def SIGINFO_SIZE_def SIGTERM_def)
  have pending: "fan_pollin round_sigterm"
    by (simp add: round_sigterm_def)
  have len: "2 \<le> length [''prog'', ''-e'', ''OPEN'', ''/tmp'', ''/var'']"
    "3 < length [''prog'', ''-e'', ''OPEN'', ''/tmp'', ''/var'']"
    by simp_all
  have "map (Pair (initial_event_mask AND NOT FAN_OPEN)) [''/tmp'', ''/var''] =
      [(initial_event_mask AND NOT FAN_OPEN, ''/tmp''),
       (initial_event_mask AND NOT FAN_OPEN, ''/var'')]"
    by simp
  with termination_signal_teardown
    [OF len(1) example_parse len(2) startup' example_loop_event r, of "[round_event]"]
  have "fst (main example_os [''prog'', ''-e'', ''OPEN'', ''/tmp'', ''/var'']
          [round_event, round_sigterm, round_event]) = Exited EXIT_SUCCESS \<and>
   marks_removed
     (snd (main example_os [''prog'', ''-e'', ''OPEN'', ''/tmp'', ''/var'']
             [round_event, round_sigterm, round_event])) =
     [(initial_event_mask AND NOT FAN_OPEN, ''/tmp''),
      (initial_event_mask AND NOT FAN_OPEN, ''/var'')] \<and>
   marks_added
     (snd (main example_os [''prog'', ''-e'', ''OPEN'', ''/tmp'', ''/var'']
             [round_event, round_sigterm, round_event])) =
     [(initial_event_mask AND NOT FAN_OPEN, ''/tmp''),
      (initial_event_mask AND NOT FAN_OPEN, ''/var'')] \<and>
   paths_freed
     (snd (main example_os [''prog'', ''-e'', ''OPEN'', ''/tmp'', ''/var'']
             [round_event, round_sigterm, round_event])) = [''/tmp'', ''/var'']"
    by (simp only: paths rounds)
  with example_parse startup waiting r pending show ?thesis
    by blast
qed


lemma signal_read_error_fatal:
  "0 \<le> poll_ret r \<Longrightarrow> sig_pollin r \<Longrightarrow> sig_read_ret r \<noteq> SIGINFO_SIZE \<Longrightarrow>
   main_loop sys (r # rounds) = (Loop_exit EXIT_FAILURE, [Stderr Err_read_signal])"
  by simp

lemma signal_read_error_no_teardown:
  assumes "2 \<le> length argv" and "main_parse argv = (i, event_mask)" and "i < length argv"
    and "startup_succeeds sys (drop i argv)"
    and "main_loop sys before = (Loop_waiting, t)"
    and "0 \<le> poll_ret r" and "sig_pollin r" and "sig_read_ret r \<noteq> SIGINFO_SIZE"
  shows "fst (main sys argv (before @ r # later)) = Exited EXIT_FAILURE \<and>
         marks_removed (snd (main sys argv (before @ r # later))) = []"
proof -
  from assms(6-8) have "main_loop sys (r # later) =
      (Loop_exit EXIT_FAILURE, [Stderr Err_read_signal])"
    by (rule signal_read_error_fatal)
  with main_loop_append [OF assms(5), of "r # later"]
  have loop: "main_loop sys (before @ r # later) =
      (Loop_exit EXIT_FAILURE, t @ [Stderr Err_read_signal])"
    by simp
  from assms(5) have t: "marks_removed t = []"
    by (auto dest: main_loop_no_watch simp: no_watch_actions_def)
  from assms(4) have "list_all (\<lambda>path. 0 \<le> fanotify_mark_add_ret sys path) (drop i argv)"
    by (simp add: startup_succeeds_def)
  note added = add_marks_succeeds [OF this, of event_mask]
  have "main sys argv (before @ r # later) =
      (Exited EXIT_FAILURE,
       [Sys_sigprocmask, Sys_signalfd] @
       (Sys_fanotify_init # snd (add_marks sys event_mask (drop i argv))) @
       t @ [Stderr Err_read_signal])"
    by (simp add: main_after_startup [OF assms(1-4)] loop)
  then show ?thesis
    using t added by (simp add: trace_append)
qed

lemma example_signal_read_error:
  "main example_os [''prog'', ''/tmp''] [round_sig_error] =
     (Exited EXIT_FAILURE,
      [Sys_sigprocmask, Sys_signalfd, Sys_fanotify_init,
       Sys_mark_add initial_event_mask ''/tmp'', Started_monitoring ''/tmp'',
       Stderr Err_read_signal])"
proof -
  have startup: "startup_succeeds example_os (drop 1 [''prog'', ''/tmp''])"
    by (simp add: startup_succeeds_def example_os_def)
  have len: "2 \<le> length [''prog'', ''/tmp'']" "1 < length [''prog'', ''/tmp'']"
    by simp_all
  have loop: "main_loop example_os [round_sig_error] =
      (Loop_exit EXIT_FAILURE, [Stderr Err_read_signal])"
    by (rule signal_read_error_fatal)
       (simp_all add: round_sig_error_def round_idle_def SIGINFO_SIZE_def)
  show ?thesis
    unfolding main_after_startup [OF len(1) example_parse_plain len(2) startup] loop
    by (simp add: example_os_def)
qed

text \<open>
  Claim C2 says that a failed read on either channel ends the program at once with a
  failure status. That holds for the signal channel (\<open>signal_read_error_fatal\<close>,
  \<open>signal_read_error_no_teardown\<close>) and for \<open>poll\<close>, but not for the
  notification channel: a round in which its \<open>read\<close> fails changes nothing, and
  the loop goes on with the next round.
\<close>

theorem notification_read_error_ignored:
  "0 \<le> poll_ret r \<Longrightarrow> \<not> sig_pollin r \<Longrightarrow> fan_pollin r \<Longrightarrow> fan_read r = Read_error \<Longrightarrow>
   main_loop sys (r # rounds) = main_loop sys rounds"
  by (simp add: read_fanotify_events_def split: prod.splits)

theorem notification_read_error_ignored_witness:
  "0 \<le> poll_ret round_fan_error \<and> \<not> sig_pollin round_fan_error \<and>
   fan_pollin round_fan_error \<and> fan_read round_fan_error = Read_error \<and>
   main_loop example_os [round_fan_error] = (Loop_waiting, []) \<and>
   main_loop example_os [round_fan_error, round_sigterm] = (Loop_break, []) \<and>
   main example_os [''prog'', ''/tmp''] [round_fan_error] =
     (Waiting,
      [Sys_sigprocmask, Sys_signalfd, Sys_fanotify_init,
       Sys_mark_add initial_event_mask ''/tmp'', Started_monitoring ''/tmp'']) \<and>
   main example_os [''prog'', ''/tmp''] [round_fan_error, round_sigterm] =
     (Exited EXIT_SUCCESS,
      [Sys_sigprocmask, Sys_signalfd, Sys_fanotify_init,
       Sys_mark_add initial_event_mask ''/tmp'', Started_monitoring ''/tmp'',
       Sys_mark_remove initial_event_mask ''/tmp'', Sys_free_path ''/tmp'',
       Sys_free_monitors, Sys_close 4, Sys_close 3, Exiting])"
proof -
  have hyps: "0 \<le> poll_ret round_fan_error" "\<not> sig_pollin round_fan_error"
    "fan_pollin round_fan_error" "fan_read round_fan_error = Read_error"
    by (simp_all add: round_fan_error_def round_idle_def)
  have sigterm: "main_loop example_os [round_sigterm] = (Loop_break, [])"
    by (simp add: round_sigterm_def SIGINFO_SIZE_def SIGTERM_def)
  have l1: "main_loop example_os [round_fan_error] = (Loop_waiting, [])"
    using notification_read_error_ignored [OF hyps, of example_os "[]"] by simp
  have l2: "main_loop example_os [round_fan_error, round_sigterm] = (Loop_break, [])"
    using notification_read_error_ignored [OF hyps, of example_os "[round_sigterm]"]
    by (simp only: sigterm)
  have startup: "startup_succeeds example_os (drop 1 [''prog'', ''/tmp''])"
    by (simp add: startup_succeeds_def example_os_def)
  have len: "2 \<le> length [''prog'', ''/tmp'']" "1 < length [''prog'', ''/tmp'']"
    by simp_all
  note m = main_after_startup [OF len(1) example_parse_plain len(2) startup]
  have m1: "main example_os [''prog'', ''/tmp''] [round_fan_error] =
     (Waiting,
      [Sys_sigprocmask, Sys_signalfd, Sys_fanotify_init,
       Sys_mark_add initial_event_mask ''/tmp'', Started_monitoring ''/tmp''])"
    unfolding m l1 by (simp add: example_os_def)
  have m2: "main example_os [''prog'', ''/tmp''] [round_fan_error, round_sigterm] =
     (Exited EXIT_SUCCESS,
      [Sys_sigprocmask, Sys_signalfd, Sys_fanotify_init,
       Sys_mark_add initial_event_mask ''/tmp'', Started_monitoring ''/tmp'',
       Sys_mark_remove initial_event_mask ''/tmp'', Sys_free_path ''/tmp'',
       Sys_free_monitors, Sys_close 4, Sys_close 3, Exiting])"
    unfolding m l2
    by (simp add: example_os_def shutdown_fanotify_def shutdown_signals_def)
  from hyps l1 l2 m1 m2 show ?thesis
    by blast
qed


lemma main_marks_added:
  assumes "2 \<le> length argv" and "main_parse argv = (i, event_mask)" and "i < length argv"
    and "startup_succeeds sys (drop i argv)"
  shows "marks_added (snd (main sys argv rounds)) = map (Pair event_mask) (drop i argv)"
proof -
  obtain res t3 where loop: "main_loop sys rounds = (res, t3)"
    by (cases "main_loop sys rounds")
  then have t3: "marks_added t3 = []"
    by (auto dest: main_loop_no_watch simp: no_watch_actions_def)
  from assms(4) have "list_all (\<lambda>path. 0 \<le> fanotify_mark_add_ret sys path) (drop i argv)"
    by (simp add: startup_succeeds_def)
  note added = add_marks_succeeds [OF this, of event_mask]
  note removed = shutdown_fanotify_trace [of event_mask "drop i argv" "fanotify_init_ret sys"]
  show ?thesis
    unfolding main_after_startup [OF assms] loop
    using t3 added removed
    by (cases res) (simp_all add: trace_append shutdown_signals_def)
qed

text \<open>
  Claim C10: the directives are read in pairs of a token (\<open>+e\<close> or \<open>-e\<close>) and the
  argument after it. Parsing stops at the first argument in token position that is
  neither token; this argument and every later one, also one spelled \<open>+e\<close> or
  \<open>-e\<close>, is a directory path, and when start-up succeeds a mark is added for each
  of them, in order, with the parsed mask. The mask starts from zero exactly when the
  very first argument is \<open>+e\<close>; a later \<open>+e\<close> only adds its category.
\<close>

theorem directive_parsing_stops_at_first_path:
  "\<not> is_directive_token d \<Longrightarrow> startup_succeeds sys (d # dirs) \<Longrightarrow>
   main_parse (prog # directives_args ds @ d # dirs) =
     (Suc (2 * length ds), foldl apply_directive (starting_mask ds) ds) \<and>
   drop (Suc (2 * length ds)) (prog # directives_args ds @ d # dirs) = d # dirs \<and>
   marks_added (snd (main sys (prog # directives_args ds @ d # dirs) rounds)) =
     map (Pair (foldl apply_directive (starting_mask ds) ds)) (d # dirs) \<and>
   starting_mask ds =
     (if (prog # directives_args ds @ d # dirs) ! 1 = ''+e'' then 0 else initial_event_mask)"
proof -
  assume d: "\<not> is_directive_token d" and startup: "startup_succeeds sys (d # dirs)"
  let ?argv = "prog # directives_args ds @ d # dirs"
  let ?mask = "foldl apply_directive (starting_mask ds) ds"
  from d have rest: "d # dirs = [] \<or> \<not> is_directive_token (hd (d # dirs))"
    and ne: "ds \<noteq> [] \<or> d # dirs \<noteq> []"
    by simp_all
  have parse: "main_parse ?argv = (Suc (2 * length ds), ?mask)"
    using rest ne by (rule main_parse_directives)
  have paths: "drop (Suc (2 * length ds)) ?argv = d # dirs"
    by (simp add: length_directives_args)
  have len: "2 \<le> length ?argv" "Suc (2 * length ds) < length ?argv"
    by (simp_all add: length_directives_args)
  from startup have "startup_succeeds sys (drop (Suc (2 * length ds)) ?argv)"
    by (simp only: paths)
  with len(1) parse len(2)
  have "marks_added (snd (main sys ?argv rounds)) =
      map (Pair ?mask) (drop (Suc (2 * length ds)) ?argv)"
    by (rule main_marks_added)
  then have marks: "marks_added (snd (main sys ?argv rounds)) = map (Pair ?mask) (d # dirs)"
    by (simp only: paths)
  have start: "starting_mask ds = (if ?argv ! 1 = ''+e'' then 0 else initial_event_mask)"
    using first_arg_directives [OF rest ne, of prog] by simp
  from parse paths marks start show ?thesis
    by blast
qed

theorem directive_parsing_stops_at_first_path_witness:
  "\<not> is_directive_token ''/tmp'' \<and>
   startup_succeeds example_os [''/tmp'', ''+e'', ''ACCESS''] \<and>
   main_parse [''prog'', ''-e'', ''OPEN'', ''/tmp'', ''+e'', ''ACCESS''] =
     (3, initial_event_mask AND NOT FAN_OPEN) \<and>
   marks_added
     (snd (main example_os [''prog'', ''-e'', ''OPEN'', ''/tmp'', ''+e'', ''ACCESS''] [])) =
     [(initial_event_mask AND NOT FAN_OPEN, ''/tmp''),
      (initial_event_mask AND NOT FAN_OPEN, ''+e''),
      (initial_event_mask AND NOT FAN_OPEN, ''ACCESS'')] \<and>
   initial_event_mask AND NOT FAN_OPEN \<noteq> 0"
proof -
  have d: "\<not> is_directive_token ''/tmp''"
    by (simp add: is_directive_token_def)
  have startup: "startup_succeeds example_os [''/tmp'', ''+e'', ''ACCESS'']"
    by (simp add: startup_succeeds_def example_os_def)
  have args: "''prog'' # directives_args [Remove ''OPEN''] @ ''/tmp'' # [''+e'', ''ACCESS''] =
      [''prog'', ''-e'', ''OPEN'', ''/tmp'', ''+e'', ''ACCESS'']"
    by (simp add: directives_args_def)
  have mask: "foldl apply_directive (starting_mask [Remove ''OPEN'']) [Remove ''OPEN''] =
      initial_event_mask AND NOT FAN_OPEN"
    by (simp add: getmask_names)
  have nonzero: "initial_event_mask AND NOT FAN_OPEN \<noteq> 0"
    by (simp add: initial_event_mask_def FAN_defs)
  from directive_parsing_stops_at_first_path
    [OF d startup, of "''prog''" "[Remove ''OPEN'']" "[]"]
  have "main_parse [''prog'', ''-e'', ''OPEN'', ''/tmp'', ''+e'', ''ACCESS''] =
     (3, initial_event_mask AND NOT FAN_OPEN) \<and>
   marks_added
     (snd (main example_os [''prog'', ''-e'', ''OPEN'', ''/tmp'', ''+e'', ''ACCESS''] [])) =
     [(initial_event_mask AND NOT FAN_OPEN, ''/tmp''),
      (initial_event_mask AND NOT FAN_OPEN, ''+e''),
      (initial_event_mask AND NOT FAN_OPEN, ''ACCESS'')]"
    unfolding args mask by simp
  with d startup nonzero show ?thesis
    by blast
qed

end
